theory Spec2Isabelle
  imports Complex_Main
begin

section \<open>Numbers and samples\<close>

text \<open>
  A JavaScript number is an IEEE 754 binary64 value. The embedding keeps the three kinds
  of value the code tests for (\<open>NaN\<close>, the two infinities, a finite number) and takes a
  finite number as the real it denotes; the two zeros are one. A Sample, the argument of
  every statistic, is a list of finite numbers. \<open>null\<close> is \<open>None\<close>.

  The statistics of the first sections (mean, median, variance, quartiles, mode) are
  computed with exact arithmetic: the rounding of their intermediate sums is outside the
  model. The conversions between strings and numbers and the class width, whose results
  turn on single roundings, are computed with the rounding of binary64 arithmetic,
  defined in the section on doubles.
\<close>

datatype jsnum = NaN | PosInf | NegInf | Fin real

type_synonym sample = "real list"

text \<open>\<open>ToNumber\<close> on a value that is a number or \<open>null\<close>: \<open>null\<close> coerces to \<open>0\<close>.\<close>

definition ToNumber :: "real option \<Rightarrow> real" where
  "ToNumber v = (case v of None \<Rightarrow> 0 | Some x \<Rightarrow> x)"

section \<open>Doubles\<close>

text \<open>
  The binade of a real \<open>x\<close> is the exponent \<open>e\<close> with \<open>2^e \<le> |x| < 2^(e + 1)\<close>, not below
  the least exponent \<open>-1022\<close> of a normal double; the doubles around \<open>x\<close> are the multiples
  of \<open>ulp x = 2^(e - 52)\<close>.
\<close>

definition binade :: "real \<Rightarrow> int" where
  "binade x = (if x = 0 then - 1022 else max \<lfloor>log 2 \<bar>x\<bar>\<rfloor> (- 1022))"

definition ulp :: "real \<Rightarrow> real" where
  "ulp x = 2 powi (binade x - 52)"

text \<open>The integer nearest to \<open>q\<close>, the even one of two.\<close>

definition round_even :: "real \<Rightarrow> int" where
  "round_even q =
     (let f = \<lfloor>q\<rfloor>; d = q - of_int f
      in if d < 1 / 2 then f else if 1 / 2 < d then f + 1 else if even f then f else f + 1)"

text \<open>
  \<open>fl x\<close> is the Number value for \<open>x\<close>: the double nearest to \<open>x\<close>, the one with the even
  significand of two, and an infinity when that rounding reaches \<open>2^1024\<close>. A real is a
  double when the rounding leaves it as it is.
\<close>

definition overflow_threshold :: real where
  "overflow_threshold = 2 ^ 1024"

definition fl :: "real \<Rightarrow> jsnum" where
  "fl x =
     (let r = of_int (round_even (x / ulp x)) * ulp x
      in if overflow_threshold \<le> \<bar>r\<bar> then (if x < 0 then NegInf else PosInf) else Fin r)"

definition is_double :: "real \<Rightarrow> bool" where
  "is_double x \<longleftrightarrow> fl x = Fin x"

text \<open>
  The arithmetic of numbers: the exact result of an operation on finite numbers is
  rounded, and the infinities and \<open>NaN\<close> follow IEEE 754. A zero divisor is the positive
  zero.
\<close>

definition negate :: "jsnum \<Rightarrow> jsnum" where
  "negate v = (case v of NaN \<Rightarrow> NaN | PosInf \<Rightarrow> NegInf | NegInf \<Rightarrow> PosInf | Fin x \<Rightarrow> Fin (- x))"

definition is_negative :: "jsnum \<Rightarrow> bool" where
  "is_negative v \<longleftrightarrow> (case v of NegInf \<Rightarrow> True | Fin x \<Rightarrow> x < 0 | _ \<Rightarrow> False)"

definition Number_add :: "jsnum \<Rightarrow> jsnum \<Rightarrow> jsnum" where
  "Number_add a b =
     (case (a, b) of
        (Fin x, Fin y) \<Rightarrow> fl (x + y)
      | (Fin x, _) \<Rightarrow> b
      | (_, Fin y) \<Rightarrow> a
      | _ \<Rightarrow> if a = b then a else NaN)"

definition Number_subtract :: "jsnum \<Rightarrow> jsnum \<Rightarrow> jsnum" where
  "Number_subtract a b = Number_add a (negate b)"

definition Number_multiply :: "jsnum \<Rightarrow> jsnum \<Rightarrow> jsnum" where
  "Number_multiply a b =
     (case (a, b) of
        (Fin x, Fin y) \<Rightarrow> fl (x * y)
      | _ \<Rightarrow> if a = NaN \<or> b = NaN \<or> a = Fin 0 \<or> b = Fin 0 then NaN
             else if is_negative a = is_negative b then PosInf else NegInf)"

definition Number_divide :: "jsnum \<Rightarrow> jsnum \<Rightarrow> jsnum" where
  "Number_divide a b =
     (case (a, b) of
        (Fin x, Fin y) \<Rightarrow>
          if y = 0 then (if x = 0 then NaN else if 0 < x then PosInf else NegInf)
          else fl (x / y)
      | (Fin x, _) \<Rightarrow> if b = NaN then NaN else Fin 0
      | (_, Fin y) \<Rightarrow> if a = NaN then NaN
                      else if is_negative a = is_negative b then PosInf else NegInf
      | _ \<Rightarrow> NaN)"

definition Math_ceil :: "jsnum \<Rightarrow> jsnum" where
  "Math_ceil v = (case v of Fin x \<Rightarrow> Fin (of_int \<lceil>x\<rceil>) | _ \<Rightarrow> v)"

text \<open>
  \<open>Math.log10\<close>. ECMAScript leaves its accuracy to the implementation; the model takes
  the correctly rounded logarithm.
\<close>

definition Math_log10 :: "jsnum \<Rightarrow> jsnum" where
  "Math_log10 v =
     (case v of
        Fin x \<Rightarrow> if x < 0 then NaN else if x = 0 then NegInf else fl (log 10 x)
      | PosInf \<Rightarrow> PosInf
      | _ \<Rightarrow> NaN)"

section \<open>calculator.js: central tendency and dispersion\<close>

text \<open>\<open>data.reduce((acc, val) => acc + val, 0)\<close> is a left fold from \<open>0\<close>.\<close>

definition reduce_sum :: "sample \<Rightarrow> real" where
  "reduce_sum data = foldl (\<lambda>acc val. acc + val) 0 data"

definition calculateMean :: "sample \<Rightarrow> real option" where
  "calculateMean data =
     (if data = [] then None else Some (reduce_sum data / real (length data)))"

text \<open>
  \<open>[...data].sort((a, b) => a - b)\<close> on finite numbers is the ascending numeric sort of a
  copy. For an even length the two central elements are read at \<open>mid - 1\<close> and \<open>mid\<close>,
  both in range because the list is not empty.
\<close>

definition calculateMedian :: "sample \<Rightarrow> real option" where
  "calculateMedian data =
     (if data = [] then None
      else let sorted = sort data; mid = length sorted div 2
           in if length sorted mod 2 = 0
              then Some ((sorted ! (mid - 1) + sorted ! mid) / 2)
              else Some (sorted ! mid))"

definition calculateVariance :: "sample \<Rightarrow> bool \<Rightarrow> real option" where
  "calculateVariance data isPopulation =
     (if data = [] then None
      else if \<not> isPopulation \<and> length data < 2 then None
      else case calculateMean data of
             None \<Rightarrow> None
           | Some mean \<Rightarrow>
               let squaredDiffs = map (\<lambda>val. (val - mean) ^ 2) data;
                   sumSquaredDiffs = reduce_sum squaredDiffs;
                   divisor = (if isPopulation then length data else length data - 1)
               in Some (sumSquaredDiffs / real divisor))"

definition calculateStdDev :: "sample \<Rightarrow> bool \<Rightarrow> real option" where
  "calculateStdDev data isPopulation =
     (case calculateVariance data isPopulation of
        None \<Rightarrow> None
      | Some variance \<Rightarrow> Some (sqrt variance))"

section \<open>calculator.js: quartiles\<close>

record quartiles =
  q1 :: "real option"
  q2 :: "real option"
  q3 :: "real option"

text \<open>\<open>sorted.slice(0, k)\<close> is \<open>take k\<close> and \<open>sorted.slice(k)\<close> is \<open>drop k\<close>.\<close>

definition calculateQuartiles :: "sample \<Rightarrow> quartiles option" where
  "calculateQuartiles data =
     (if data = [] then None
      else let sorted = sort data;
               n = length sorted;
               lowerHalf = take (n div 2) sorted;
               upperStart = (if n mod 2 = 0 then n div 2 else n div 2 + 1);
               upperHalf = drop upperStart sorted
           in Some \<lparr> q1 = calculateMedian lowerHalf,
                     q2 = calculateMedian sorted,
                     q3 = calculateMedian upperHalf \<rparr>)"

text \<open>
  \<open>quartiles.q3 - quartiles.q1\<close> subtracts two values that may be \<open>null\<close>; the
  subtraction coerces each operand with \<open>ToNumber\<close>.
\<close>

definition calculateIQR :: "sample \<Rightarrow> real option" where
  "calculateIQR data =
     (case calculateQuartiles data of
        None \<Rightarrow> None
      | Some qs \<Rightarrow> Some (ToNumber (q3 qs) - ToNumber (q1 qs)))"

section \<open>Mode\<close>

text \<open>
  An element of the array \<open>calculateMode\<close> returns: the string of the sentinel
  \<open>['No mode']\<close>, or a number.
\<close>

datatype mode_item = Str string | Num real

text \<open>
  The \<open>frequency\<close> object. A property key is the string of a number; on finite numbers
  that string determines the number and \<open>parseFloat\<close> (or \<open>Number\<close>) reads it back, so
  the model keys the object by the number itself. The list holds the own properties in
  the order of their creation.
\<close>

type_synonym freq_object = "(real \<times> nat) list"

fun get_prop :: "freq_object \<Rightarrow> real \<Rightarrow> nat option" where
  "get_prop [] key = None"
| "get_prop ((k, v) # ps) key = (if k = key then Some v else get_prop ps key)"

fun set_prop :: "freq_object \<Rightarrow> real \<Rightarrow> nat \<Rightarrow> freq_object" where
  "set_prop [] key v = [(key, v)]"
| "set_prop ((k, w) # ps) key v = (if k = key then (k, v) # ps else (k, w) # set_prop ps key v)"

text \<open>\<open>Number.isInteger\<close> on a finite number.\<close>

definition isInteger :: "real \<Rightarrow> bool" where
  "isInteger x \<longleftrightarrow> of_int \<lfloor>x\<rfloor> = x"

text \<open>
  The order in which \<open>Object.keys\<close> and \<open>for ... in\<close> list the own string keys of an
  ordinary object: first the array indices (the keys that are canonical strings of an
  integer from \<open>0\<close> to \<open>2^32 - 2\<close>) in ascending numeric order, then every other key in
  order of creation.
\<close>

definition is_array_index :: "real \<Rightarrow> bool" where
  "is_array_index k \<longleftrightarrow> isInteger k \<and> 0 \<le> k \<and> k \<le> 4294967294"

definition Object_keys :: "freq_object \<Rightarrow> real list" where
  "Object_keys obj =
     sort (filter is_array_index (map fst obj))
       @ filter (\<lambda>k. \<not> is_array_index k) (map fst obj)"

text \<open>
  One round of the counting loop, on the pair of the object and \<open>maxFreq\<close>:
  \<open>frequency[val] = (frequency[val] || 0) + 1\<close>, then the update of the maximum.
\<close>

definition count_val :: "freq_object \<times> nat \<Rightarrow> real \<Rightarrow> freq_object \<times> nat" where
  "count_val st val =
     (let frequency = fst st; maxFreq = snd st;
          c = (case get_prop frequency val of None \<Rightarrow> 0 | Some n \<Rightarrow> n) + 1
      in (set_prop frequency val c, if c > maxFreq then c else maxFreq))"

text \<open>\<open>StatCalculator.calculateMode\<close> of calculator.js: the keys are filtered, not sorted.\<close>

definition calculateMode :: "sample \<Rightarrow> mode_item list option" where
  "calculateMode data =
     (if data = [] then None
      else let st = foldl count_val ([], 0) data; frequency = fst st; maxFreq = snd st
           in if maxFreq = 1 then Some [Str ''No mode'']
              else Some (map Num (filter (\<lambda>key. get_prop frequency key = Some maxFreq)
                                         (Object_keys frequency))))"

text \<open>
  \<open>Statistics.calculateMode\<close> of statistics.js: the same counting loop, the modes pushed
  in \<open>for ... in\<close> order and then sorted with \<open>(a, b) => a - b\<close>.
\<close>

definition Statistics_calculateMode :: "sample \<Rightarrow> mode_item list option" where
  "Statistics_calculateMode data =
     (if data = [] then None
      else let st = foldl count_val ([], 0) data; frequency = fst st; maxFreq = snd st
           in if maxFreq = 1 then Some [Str ''No mode'']
              else Some (map Num (sort (filter (\<lambda>val. get_prop frequency val = Some maxFreq)
                                               (Object_keys frequency)))))"

section \<open>Class width\<close>

text \<open>
  The \<open>numClasses\<close> argument as a call can supply it: left out (\<open>undefined\<close>), \<open>null\<close>,
  or a number. A default parameter value replaces \<open>undefined\<close> only.
\<close>

datatype class_arg = Undefined | Null | Count real

text \<open>The exceptions the code can throw.\<close>

datatype js_error = TypeError | RangeError

text \<open>
  \<open>Math.min(...data)\<close> and \<open>Math.max(...data)\<close>. The spread passes every element of the
  array as an argument of one call, and an engine throws a \<open>RangeError\<close> when the
  arguments do not fit its call stack. The number of arguments an engine accepts is not
  fixed by the language (it is about 125 000 for V8 with its default stack), so the
  model takes it as the parameter \<open>max_args\<close>. Of no arguments, \<open>Math.min\<close> is \<open>Infinity\<close>
  and \<open>Math.max\<close> is \<open>-Infinity\<close>.
\<close>

definition Math_min :: "nat \<Rightarrow> real list \<Rightarrow> js_error + jsnum" where
  "Math_min max_args data =
     (if max_args < length data then Inl RangeError
      else Inr (case data of [] \<Rightarrow> PosInf | x # xs \<Rightarrow> Fin (fold min xs x)))"

definition Math_max :: "nat \<Rightarrow> real list \<Rightarrow> js_error + jsnum" where
  "Math_max max_args data =
     (if max_args < length data then Inl RangeError
      else Inr (case data of [] \<Rightarrow> NegInf | x # xs \<Rightarrow> Fin (fold max xs x)))"

text \<open>
  Sturges' formula as the code writes it, \<open>Math.ceil(1 + 3.322 * Math.log10(n))\<close>; the
  literal \<open>3.322\<close> is the double nearest to it.
\<close>

definition sturges :: "nat \<Rightarrow> jsnum" where
  "sturges n =
     Math_ceil (Number_add (Fin 1) (Number_multiply (fl 3.322) (Math_log10 (Fin (real n)))))"

text \<open>
  The body shared by the two files, after the default value has replaced \<open>undefined\<close>.
  \<open>!numClasses\<close> holds for \<open>null\<close> and for \<open>0\<close>.
\<close>

definition class_width_body :: "nat \<Rightarrow> sample \<Rightarrow> class_arg \<Rightarrow> js_error + jsnum option" where
  "class_width_body max_args data numClasses =
     (if data = [] then Inr None
      else case Math_min max_args data of
             Inl e \<Rightarrow> Inl e
           | Inr mn \<Rightarrow>
               (case Math_max max_args data of
                  Inl e \<Rightarrow> Inl e
                | Inr mx \<Rightarrow>
                    let range = Number_subtract mx mn;
                        numClasses' =
                          (case numClasses of
                             Count c \<Rightarrow> if c = 0 \<or> c < 1 then sturges (length data) else Fin c
                           | _ \<Rightarrow> sturges (length data));
                        rawWidth = Number_divide range numClasses'
                    in Inr (Some (Number_divide (Math_ceil (Number_multiply rawWidth (Fin 100)))
                                                (Fin 100)))))"

text \<open>\<open>StatCalculator.calculateClassWidth(data, numClasses = null)\<close> of calculator.js.\<close>

definition calculateClassWidth :: "nat \<Rightarrow> sample \<Rightarrow> class_arg \<Rightarrow> js_error + jsnum option" where
  "calculateClassWidth max_args data numClasses =
     class_width_body max_args data (case numClasses of Undefined \<Rightarrow> Null | a \<Rightarrow> a)"

text \<open>\<open>Statistics.calculateClassWidth(data, numClasses = 5)\<close> of statistics.js.\<close>

definition Statistics_calculateClassWidth ::
    "nat \<Rightarrow> sample \<Rightarrow> class_arg \<Rightarrow> js_error + jsnum option" where
  "Statistics_calculateClassWidth max_args data numClasses =
     class_width_body max_args data (case numClasses of Undefined \<Rightarrow> Count 5 | a \<Rightarrow> a)"

section \<open>Strings and the built-in conversions\<close>

text \<open>
  A string is a list of code units, here the units below 256. The white space among
  them (what \<open>\s\<close> matches and \<open>trim\<close> removes): tab, line feed, vertical tab, form
  feed, carriage return, space and no-break space.
\<close>

definition is_space :: "char \<Rightarrow> bool" where
  "is_space c \<longleftrightarrow>
     c \<in> set [CHR 0x09, CHR 0x0A, CHR 0x0B, CHR 0x0C, CHR 0x0D, CHR 0x20, CHR 0xA0]"

text \<open>The separator class \<open>[,\s;]\<close> of both \<open>parseInput\<close> functions.\<close>

definition is_sep :: "char \<Rightarrow> bool" where
  "is_sep c \<longleftrightarrow> c = CHR '','' \<or> c = CHR '';'' \<or> is_space c"

text \<open>
  \<open>input.split(/[,\s;]+/)\<close>: the pieces between the maximal runs of separators. A
  string that starts (ends) with a separator has an empty first (last) piece, and the
  empty string has the one piece \<open>""\<close>.
\<close>

function split_seps :: "string \<Rightarrow> string list" where
  "split_seps s =
     (case dropWhile (\<lambda>c. \<not> is_sep c) s of
        [] \<Rightarrow> [s]
      | c # r \<Rightarrow> takeWhile (\<lambda>c. \<not> is_sep c) s # split_seps (dropWhile is_sep r))"
  by pat_completeness auto
termination
proof (relation "measure length")
  fix s :: string and c r
  assume a: "dropWhile (\<lambda>c. \<not> is_sep c) s = c # r"
  have "length (dropWhile is_sep r) \<le> length r" by (rule length_dropWhile_le)
  also have "length r < length (dropWhile (\<lambda>c. \<not> is_sep c) s)" by (simp add: a)
  also have "\<dots> \<le> length s" by (rule length_dropWhile_le)
  finally show "(dropWhile is_sep r, s) \<in> measure length" by simp
qed simp

declare split_seps.simps [simp del]

definition trim :: "string \<Rightarrow> string" where
  "trim s = rev (dropWhile is_space (rev (dropWhile is_space s)))"

text \<open>\<open>arr.join(d)\<close> on an array of strings and \<open>null\<close>s; \<open>null\<close> is joined as \<open>""\<close>.\<close>

fun Array_join :: "string \<Rightarrow> string option list \<Rightarrow> string" where
  "Array_join d [] = []"
| "Array_join d [x] = (case x of None \<Rightarrow> [] | Some s \<Rightarrow> s)"
| "Array_join d (x # y # ys) = (case x of None \<Rightarrow> [] | Some s \<Rightarrow> s) @ d @ Array_join d (y # ys)"

subsection \<open>Decimal digits\<close>

definition is_digit :: "char \<Rightarrow> bool" where
  "is_digit c \<longleftrightarrow> (48 :: nat) \<le> of_char c \<and> of_char c \<le> (57 :: nat)"

definition digit_val :: "char \<Rightarrow> nat" where
  "digit_val c = of_char c - 48"

definition digit_char :: "nat \<Rightarrow> char" where
  "digit_char d = char_of (d + 48)"

text \<open>The value of a digit string, and the digit string of a natural number.\<close>

definition digits_value :: "string \<Rightarrow> nat" where
  "digits_value ds = foldl (\<lambda>a c. 10 * a + digit_val c) 0 ds"

fun digits_of_nat :: "nat \<Rightarrow> string" where
  "digits_of_nat n =
     (if n < 10 then [digit_char n] else digits_of_nat (n div 10) @ [digit_char (n mod 10)])"

declare digits_of_nat.simps [simp del]

subsection \<open>String to number\<close>

definition isNaN :: "jsnum \<Rightarrow> bool" where
  "isNaN v \<longleftrightarrow> v = NaN"

definition isFinite :: "jsnum \<Rightarrow> bool" where
  "isFinite v \<longleftrightarrow> (case v of Fin x \<Rightarrow> True | _ \<Rightarrow> False)"

text \<open>\<open>m\<close> times \<open>10\<close> to the power \<open>e\<close>, for an exponent of either sign.\<close>

definition scale10 :: "real \<Rightarrow> int \<Rightarrow> real" where
  "scale10 m e = (if 0 \<le> e then m * 10 ^ nat e else m / 10 ^ nat (- e))"

text \<open>
  The grammar \<open>StrDecimalLiteral\<close> of ECMAScript, read as the longest prefix of a string:
  an optional sign, then \<open>Infinity\<close>, or digits with an optional fraction, or a point and
  digits, then an optional exponent part. Each function returns what it read and the rest
  of the string, the value as the real the literal denotes. An exponent indicator with
  no digit after it is not part of the literal.
\<close>

definition exponent_part :: "string \<Rightarrow> int \<times> string" where
  "exponent_part s =
     (case s of
        [] \<Rightarrow> (0, s)
      | c # r \<Rightarrow>
          if c = CHR ''e'' \<or> c = CHR ''E'' then
            (let sg = (case r of [] \<Rightarrow> (False, r)
                       | d # r' \<Rightarrow> if d = CHR ''-'' then (True, r')
                                  else if d = CHR ''+'' then (False, r') else (False, r));
                 ds = takeWhile is_digit (snd sg)
             in if ds = [] then (0, s)
                else (if fst sg then - int (digits_value ds) else int (digits_value ds),
                      dropWhile is_digit (snd sg)))
          else (0, s))"

definition StrUnsignedDecimalLiteral :: "string \<Rightarrow> jsnum \<times> string" where
  "StrUnsignedDecimalLiteral s =
     (if take 8 s = ''Infinity'' then (PosInf, drop 8 s)
      else let ip = takeWhile is_digit s;
               r1 = dropWhile is_digit s;
               fr = (case r1 of [] \<Rightarrow> ([], r1)
                     | c # r \<Rightarrow> if c = CHR ''.'' then (takeWhile is_digit r, dropWhile is_digit r)
                                else ([], r1));
               fp = fst fr
           in if ip = [] \<and> fp = [] then (NaN, s)
              else let ex = exponent_part (snd fr)
                   in (Fin (scale10 (real (digits_value (ip @ fp))) (fst ex - int (length fp))),
                       snd ex))"

definition StrDecimalLiteral :: "string \<Rightarrow> jsnum \<times> string" where
  "StrDecimalLiteral s =
     (case s of
        [] \<Rightarrow> (NaN, s)
      | c # r \<Rightarrow>
          if c = CHR ''-'' then (let u = StrUnsignedDecimalLiteral r in (negate (fst u), snd u))
          else if c = CHR ''+'' then StrUnsignedDecimalLiteral r
          else StrUnsignedDecimalLiteral s)"

text \<open>
  The value a literal denotes is a real, the mathematical value of the literal; the
  Number it stands for is that value rounded to the nearest double (an implementation may
  round a literal of more than 20 significant digits at the twentieth; the model rounds
  the exact value, as V8 does).
\<close>

definition RoundMVResult :: "jsnum \<Rightarrow> jsnum" where
  "RoundMVResult v = (case v of Fin x \<Rightarrow> fl x | _ \<Rightarrow> v)"

text \<open>
  \<open>parseFloat\<close>: leading white space is skipped, the longest prefix that is a
  \<open>StrDecimalLiteral\<close> gives the value, whatever follows it is ignored, and the result is
  \<open>NaN\<close> when there is no such prefix.
\<close>

definition parseFloat :: "string \<Rightarrow> jsnum" where
  "parseFloat input = RoundMVResult (fst (StrDecimalLiteral (dropWhile is_space input)))"

text \<open>
  The non-decimal integer literals \<open>0x\<close>, \<open>0o\<close>, \<open>0b\<close> that \<open>Number\<close> (not \<open>parseFloat\<close>)
  accepts, unsigned.
\<close>

definition base_digit :: "char \<Rightarrow> nat option" where
  "base_digit c =
     (let n = (of_char c :: nat)
      in if 48 \<le> n \<and> n \<le> 57 then Some (n - 48)
         else if 97 \<le> n \<and> n \<le> 102 then Some (n - 87)
         else if 65 \<le> n \<and> n \<le> 70 then Some (n - 55)
         else None)"

definition base_value :: "nat \<Rightarrow> string \<Rightarrow> nat option" where
  "base_value b ds =
     (if ds \<noteq> [] \<and> (\<forall>c \<in> set ds. case base_digit c of None \<Rightarrow> False | Some d \<Rightarrow> d < b)
      then Some (foldl (\<lambda>a c. b * a + (case base_digit c of None \<Rightarrow> 0 | Some d \<Rightarrow> d)) 0 ds)
      else None)"

definition NonDecimalIntegerLiteral :: "string \<Rightarrow> nat option" where
  "NonDecimalIntegerLiteral s =
     (case s of
        z # c # ds \<Rightarrow>
          if z \<noteq> CHR ''0'' then None
          else if c = CHR ''x'' \<or> c = CHR ''X'' then base_value 16 ds
          else if c = CHR ''o'' \<or> c = CHR ''O'' then base_value 8 ds
          else if c = CHR ''b'' \<or> c = CHR ''B'' then base_value 2 ds
          else None
      | _ \<Rightarrow> None)"

text \<open>
  \<open>Number(str)\<close>, which \<open>isNaN(str)\<close> applies as well: white space is trimmed at both
  ends, the empty string is \<open>0\<close>, and the whole of what is left must be one literal.
\<close>

definition StringToNumber :: "string \<Rightarrow> jsnum" where
  "StringToNumber str =
     (let s = trim str
      in if s = [] then Fin 0
         else case NonDecimalIntegerLiteral s of
                Some n \<Rightarrow> fl (real n)
              | None \<Rightarrow> (let p = StrDecimalLiteral s
                         in if snd p = [] then RoundMVResult (fst p) else NaN))"

subsection \<open>Number to string\<close>

definition strip_zeros :: "string \<Rightarrow> string" where
  "strip_zeros ds = rev (dropWhile (\<lambda>c. c = CHR ''0'') (rev ds))"

text \<open>
  \<open>Number.prototype.toString\<close> in radix 10 prints a positive double \<open>x\<close> with the least
  number \<open>k\<close> of significant digits that read back as \<open>x\<close>: integers \<open>s\<close> and \<open>n\<close> with
  \<open>10^(k - 1) \<le> s < 10^k\<close> and \<open>fl (s * 10^(n - k)) = x\<close>, and, of several such \<open>s\<close>, the
  one for which \<open>s * 10^(n - k)\<close> is nearest to \<open>x\<close>.

  The decimal exponent of \<open>x\<close> is the \<open>n\<close> with \<open>10^(n - 1) \<le> x < 10^n\<close>. With \<open>k\<close>
  digits the candidates are the two neighbours of \<open>x\<close> among the multiples of
  \<open>10^(n - k)\<close>: \<open>choose_digits\<close> returns the one that reads back as \<open>x\<close>, the nearer one
  (the even one at equal distance) if both do, as the pair of \<open>s\<close> and the exponent
  \<open>n - k\<close>. The search runs through \<open>k = 1, 2, ...\<close> and stops at the first \<open>k\<close> that has
  such a candidate. A double has a finite decimal expansion, of fewer than 1400 digits,
  which ends the search; \<open>fuel\<close> bounds it there.
\<close>

definition decimal_exponent :: "real \<Rightarrow> int" where
  "decimal_exponent x = \<lfloor>log 10 x\<rfloor> + 1"

definition choose_digits :: "real \<Rightarrow> nat \<Rightarrow> (nat \<times> int) option" where
  "choose_digits x k =
     (let e = decimal_exponent x - int k;
          lo = nat \<lfloor>x / 10 powi e\<rfloor>;
          hi = lo + 1;
          lo_ok = (fl (real lo * 10 powi e) = Fin x);
          hi_ok = (fl (real hi * 10 powi e) = Fin x)
      in if lo_ok \<and> hi_ok then Some (nat (round_even (x / 10 powi e)), e)
         else if lo_ok then Some (lo, e)
         else if hi_ok then Some (hi, e)
         else None)"

fun shortest_digits :: "nat \<Rightarrow> nat \<Rightarrow> real \<Rightarrow> nat \<times> int" where
  "shortest_digits 0 k x = (0, 0)"
| "shortest_digits (Suc fuel) k x =
     (case choose_digits x k of
        Some se \<Rightarrow> se
      | None \<Rightarrow> shortest_digits fuel (Suc k) x)"

text \<open>
  The notation, from the digits \<open>ds\<close> of \<open>s\<close> (\<open>k\<close> of them, the last not zero) and \<open>n\<close>:
  the digits followed by zeros when \<open>k \<le> n \<le> 21\<close>; the digits with a point after the
  first \<open>n\<close> when \<open>0 < n \<le> 21\<close>; \<open>0.\<close>, zeros and the digits when \<open>-6 < n \<le> 0\<close>; and
  otherwise exponential notation, with a point after the first digit when there are
  several, and the exponent \<open>n - 1\<close> with its sign.
\<close>

definition print_decimal :: "string \<Rightarrow> int \<Rightarrow> string" where
  "print_decimal ds n =
     (let k = int (length ds)
      in if k \<le> n \<and> n \<le> 21 then ds @ replicate (nat (n - k)) CHR ''0''
         else if 0 < n \<and> n \<le> 21 then take (nat n) ds @ ''.'' @ drop (nat n) ds
         else if - 6 < n \<and> n \<le> 0 then ''0.'' @ replicate (nat (- n)) CHR ''0'' @ ds
         else (if k = 1 then ds else hd ds # CHR ''.'' # tl ds)
                @ ''e'' @ (if n - 1 < 0 then ''-'' else ''+'') @ digits_of_nat (nat \<bar>n - 1\<bar>))"

definition positive_toString :: "real \<Rightarrow> string" where
  "positive_toString x =
     (let se = shortest_digits 1400 1 x;
          ds = digits_of_nat (fst se)
      in print_decimal (strip_zeros ds) (int (length ds) + snd se))"

definition Number_toString :: "jsnum \<Rightarrow> string" where
  "Number_toString v =
     (case v of
        NaN \<Rightarrow> ''NaN''
      | PosInf \<Rightarrow> ''Infinity''
      | NegInf \<Rightarrow> ''-Infinity''
      | Fin x \<Rightarrow> if x = 0 then ''0''
                 else if x < 0 then CHR ''-'' # positive_toString (- x)
                 else positive_toString x)"

text \<open>
  \<open>Number.prototype.toFixed(f)\<close>, \<open>f\<close> digits after the point: \<open>n\<close> is the integer
  nearest to \<open>x * 10^f\<close>, the larger one of two; its digits are padded with zeros on the
  left to \<open>f + 1\<close> digits and the point is put before the last \<open>f\<close>. The branch of the
  built-in for \<open>x \<ge> 10^21\<close> is left out: \<open>formatNumber\<close> calls \<open>toFixed\<close> on numbers that
  are not integers, and such a double is below \<open>2^53\<close>.
\<close>

definition toFixed :: "jsnum \<Rightarrow> nat \<Rightarrow> string" where
  "toFixed v f =
     (case v of
        Fin x \<Rightarrow>
          let n = nat \<lfloor>\<bar>x\<bar> * 10 ^ f + 1 / 2\<rfloor>;
              m = digits_of_nat n;
              m2 = (if length m \<le> f then replicate (f + 1 - length m) CHR ''0'' @ m else m);
              k = length m2
          in (if x < 0 then ''-'' else [])
               @ (if f \<noteq> 0 then take (k - f) m2 @ ''.'' @ drop (k - f) m2 else m)
      | _ \<Rightarrow> Number_toString v)"

definition Number_isInteger :: "jsnum \<Rightarrow> bool" where
  "Number_isInteger v \<longleftrightarrow> (case v of Fin x \<Rightarrow> isInteger x | _ \<Rightarrow> False)"

section \<open>Parsing and formatting\<close>

text \<open>
  \<open>StatCalculator.parseInput\<close> of calculator.js, on a string: \<open>!input\<close> holds for the
  empty string.
\<close>

definition parseInput :: "string \<Rightarrow> jsnum list" where
  "parseInput input =
     (if input = [] then []
      else filter (\<lambda>v. \<not> isNaN v \<and> isFinite v)
             (map parseFloat (filter (\<lambda>v. v \<noteq> []) (map trim (split_seps input)))))"

text \<open>
  \<open>Statistics.parseInput\<close> of statistics.js, on a string: a piece is kept when it is not
  empty and \<open>isNaN\<close> of it is false, and \<open>Number\<close> of it is pushed.
\<close>

definition Statistics_parseInput :: "string \<Rightarrow> jsnum list" where
  "Statistics_parseInput input =
     (if input = [] then []
      else map StringToNumber
             (filter (\<lambda>val. val \<noteq> [] \<and> \<not> isNaN (StringToNumber val))
                (map trim (split_seps input))))"

text \<open>
  \<open>StatCalculator.formatNumber(num, precision = 4)\<close> of calculator.js; every call in the
  repository leaves \<open>precision\<close> at its default.
\<close>

definition formatNumber :: "jsnum option \<Rightarrow> string option" where
  "formatNumber num =
     (case num of
        None \<Rightarrow> None
      | Some v \<Rightarrow>
          if isNaN v then None
          else if Number_isInteger v then Some (Number_toString v)
          else Some (Number_toString (parseFloat (toFixed v 4))))"

text \<open>\<open>Statistics.formatNumber\<close> of statistics.js: no test for \<open>NaN\<close>, \<open>Number\<close> for \<open>parseFloat\<close>.\<close>

definition Statistics_formatNumber :: "jsnum option \<Rightarrow> string option" where
  "Statistics_formatNumber num =
     (case num of
        None \<Rightarrow> None
      | Some v \<Rightarrow>
          if Number_isInteger v then Some (Number_toString v)
          else Some (Number_toString (StringToNumber (toFixed v 4))))"

section \<open>calculator.js: all statistics at once\<close>

record basic_stats =
  bs_count :: nat
  bs_sum :: real
  bs_min :: jsnum
  bs_max :: jsnum
  bs_range :: jsnum

definition getBasicStats :: "nat \<Rightarrow> sample \<Rightarrow> js_error + basic_stats option" where
  "getBasicStats max_args data =
     (if data = [] then Inr None
      else case Math_min max_args data of
             Inl e \<Rightarrow> Inl e
           | Inr mn \<Rightarrow>
               (case Math_max max_args data of
                  Inl e \<Rightarrow> Inl e
                | Inr mx \<Rightarrow>
                    Inr (Some \<lparr> bs_count = length data, bs_sum = reduce_sum data,
                                bs_min = mn, bs_max = mx,
                                bs_range = Number_subtract mx mn \<rparr>)))"

text \<open>
  The object \<open>calculateAll\<close> returns on data: the formatted fields are strings or \<open>null\<close>.
\<close>

record statistics_result =
  res_count :: nat
  res_sum :: "string option"
  res_min :: "string option"
  res_max :: "string option"
  res_range :: "string option"
  res_mean :: "string option"
  res_median :: "string option"
  res_mode :: "mode_item list option"
  res_variancePopulation :: "string option"
  res_varianceSample :: "string option"
  res_stdDevPopulation :: "string option"
  res_stdDevSample :: "string option"
  res_q1 :: "string option"
  res_q2 :: "string option"
  res_q3 :: "string option"
  res_iqr :: "string option"
  res_classWidth :: "string option"
  res_numClasses :: class_arg
  res_rawData :: sample

text \<open>
  What a call of \<open>calculateAll\<close> can do: return the object \<open>{ error: ... }\<close>, return the
  statistics, or throw. Reading a property of \<open>null\<close> throws a \<open>TypeError\<close> (the function
  reads \<open>basic.count\<close> and the other fields of \<open>basic\<close> without a test), and the spreads
  in \<open>getBasicStats\<close> and \<open>calculateClassWidth\<close> throw a \<open>RangeError\<close> on an array that
  is too long. The fields are evaluated in the order of the source, so the first
  exception is the one of \<open>getBasicStats\<close>.
\<close>

datatype all_result = ErrorMarker string | Stats statistics_result

text \<open>
  A statistic that is a number or \<open>null\<close>, as the value passed to \<open>formatNumber\<close>: the
  exact value of the statistic, rounded to a double.
\<close>

definition js_number :: "real option \<Rightarrow> jsnum option" where
  "js_number v = map_option fl v"

definition calculateAll :: "nat \<Rightarrow> sample \<Rightarrow> class_arg \<Rightarrow> js_error + all_result" where
  "calculateAll max_args data numClasses0 =
     (let numClasses = (case numClasses0 of Undefined \<Rightarrow> Count 5 | a \<Rightarrow> a)
      in if data = [] then Inr (ErrorMarker ''No valid data provided'')
         else case getBasicStats max_args data of
                Inl e \<Rightarrow> Inl e
              | Inr None \<Rightarrow> Inl TypeError
              | Inr (Some basic) \<Rightarrow>
                  (case calculateClassWidth max_args data numClasses of
                     Inl e \<Rightarrow> Inl e
                   | Inr classWidth \<Rightarrow>
                  let quartiles = calculateQuartiles data
                  in Inr (Stats
                       \<lparr> res_count = bs_count basic,
                         res_sum = formatNumber (Some (fl (bs_sum basic))),
                         res_min = formatNumber (Some (bs_min basic)),
                         res_max = formatNumber (Some (bs_max basic)),
                         res_range = formatNumber (Some (bs_range basic)),
                         res_mean = formatNumber (js_number (calculateMean data)),
                         res_median = formatNumber (js_number (calculateMedian data)),
                         res_mode = calculateMode data,
                         res_variancePopulation = formatNumber (js_number (calculateVariance data True)),
                         res_varianceSample = formatNumber (js_number (calculateVariance data False)),
                         res_stdDevPopulation = formatNumber (js_number (calculateStdDev data True)),
                         res_stdDevSample = formatNumber (js_number (calculateStdDev data False)),
                         res_q1 = (case quartiles of None \<Rightarrow> None
                                   | Some qs \<Rightarrow> formatNumber (js_number (q1 qs))),
                         res_q2 = (case quartiles of None \<Rightarrow> None
                                   | Some qs \<Rightarrow> formatNumber (js_number (q2 qs))),
                         res_q3 = (case quartiles of None \<Rightarrow> None
                                   | Some qs \<Rightarrow> formatNumber (js_number (q3 qs))),
                         res_iqr = formatNumber (js_number (calculateIQR data)),
                         res_classWidth = formatNumber classWidth,
                         res_numClasses = numClasses,
                         res_rawData = data \<rparr>)))"

section \<open>The properties, in the spec's words\<close>

text \<open>
  The median as the spec defines it: sort a copy of the sample ascending; for an odd
  length the middle element, for an even length the average of the two central elements;
  undefined for the empty sample.
\<close>

definition spec_median :: "sample \<Rightarrow> real option" where
  "spec_median xs =
     (if xs = [] then None
      else if odd (length xs) then Some (sort xs ! ((length xs - 1) div 2))
      else Some ((sort xs ! (length xs div 2 - 1) + sort xs ! (length xs div 2)) / 2))"




text \<open>
  The frequency of a value is \<open>count_list\<close>. The largest frequency in a sample, the
  samples in which every value occurs once, and the values of largest frequency.
\<close>

definition max_frequency :: "sample \<Rightarrow> nat" where
  "max_frequency data = Max (count_list data ` set data)"

definition all_once :: "sample \<Rightarrow> bool" where
  "all_once data \<longleftrightarrow> (\<forall>x\<in>set data. count_list data x = 1)"

definition most_frequent :: "sample \<Rightarrow> real set" where
  "most_frequent data = {x \<in> set data. count_list data x = max_frequency data}"

text \<open>
  The invariant of the counting loop after the prefix \<open>xs\<close>: the object holds exactly the
  values seen, each once and with its count, and \<open>maxFreq\<close> is the largest count.
\<close>

definition counted :: "sample \<Rightarrow> freq_object \<times> nat \<Rightarrow> bool" where
  "counted xs st \<longleftrightarrow>
     (\<forall>k. get_prop (fst st) k = (if k \<in> set xs then Some (count_list xs k) else None))
     \<and> distinct (map fst (fst st)) \<and> set (map fst (fst st)) = set xs
     \<and> (\<forall>k. count_list xs k \<le> snd st)
     \<and> (if xs = [] then snd st = 0 else \<exists>k\<in>set xs. count_list xs k = snd st)"

text \<open>
  Rounding up to two decimal places: \<open>w\<close> is the least multiple of 0.01 that is not below
  \<open>r\<close>.
\<close>

definition rounded_up_2dp :: "real \<Rightarrow> real \<Rightarrow> bool" where
  "rounded_up_2dp r w \<longleftrightarrow> isInteger (w * 100) \<and> r \<le> w \<and> w < r + 1 / 100"

text \<open>
  A complete result: every field that is defined on each non-empty sample holds a value.
  The sample variance and deviation and the outer quartiles may be \<open>null\<close>.
\<close>

definition complete_result :: "statistics_result \<Rightarrow> bool" where
  "complete_result r \<longleftrightarrow>
     res_sum r \<noteq> None \<and> res_min r \<noteq> None \<and> res_max r \<noteq> None \<and> res_range r \<noteq> None
     \<and> res_mean r \<noteq> None \<and> res_median r \<noteq> None \<and> res_mode r \<noteq> None
     \<and> res_variancePopulation r \<noteq> None \<and> res_stdDevPopulation r \<noteq> None
     \<and> res_q2 r \<noteq> None \<and> res_iqr r \<noteq> None \<and> res_classWidth r \<noteq> None"

text \<open>
  Rounding to four decimal places the way \<open>toFixed\<close> does it, to the nearest multiple of
  \<open>0.0001\<close> and away from zero at a half; on a number, the double of the rounded value.
\<close>

definition round_4dp :: "real \<Rightarrow> real" where
  "round_4dp x = (if x < 0 then - 1 else 1) * of_int \<lfloor>\<bar>x\<bar> * 10 ^ 4 + 1 / 2\<rfloor> / 10 ^ 4"

definition round_4dp_num :: "jsnum \<Rightarrow> jsnum" where
  "round_4dp_num v = (case v of Fin x \<Rightarrow> fl (round_4dp x) | _ \<Rightarrow> v)"

text \<open>The integer string of an integer: a minus sign when negative, and the decimal digits.\<close>

definition integer_string :: "int \<Rightarrow> string" where
  "integer_string i = (if i < 0 then ''-'' else []) @ digits_of_nat (nat \<bar>i\<bar>)"

text \<open>
  A plain decimal numeral with its trailing zeros stripped: an optional minus sign, one
  or more digits and, optionally, a point followed by one to four digits of which the
  last is not zero.
\<close>

definition plain_decimal :: "string \<Rightarrow> bool" where
  "plain_decimal s \<longleftrightarrow>
     (let body = (case s of [] \<Rightarrow> [] | c # r \<Rightarrow> if c = CHR ''-'' then r else s);
          ip = takeWhile is_digit body;
          rest = dropWhile is_digit body
      in ip \<noteq> []
         \<and> (case rest of
               [] \<Rightarrow> True
             | c # fp \<Rightarrow> c = CHR ''.'' \<and> fp \<noteq> [] \<and> (\<forall>c \<in> set fp. is_digit c)
                         \<and> length fp \<le> 4 \<and> last fp \<noteq> CHR ''0''))"

text \<open>
  The characters of the strings \<open>formatNumber\<close> returns on finite numbers, and the
  non-empty strings made of them; none of the characters is a separator or white space.
\<close>

definition numeric_char :: "char \<Rightarrow> bool" where
  "numeric_char c \<longleftrightarrow>
     is_digit c \<or> c = CHR ''-'' \<or> c = CHR ''.'' \<or> c = CHR ''e'' \<or> c = CHR ''+''"

definition numeral_string :: "string \<Rightarrow> bool" where
  "numeral_string s \<longleftrightarrow> s \<noteq> [] \<and> (\<forall>c \<in> set s. numeric_char c)"


section \<open>Sums, means and medians\<close>


lemma sort_Nil_iff: "sort data = [] \<longleftrightarrow> data = []"
  by (metis length_sort length_0_conv)

lemma calculateMedian_sort: "calculateMedian (sort data) = calculateMedian data"
  by (simp add: calculateMedian_def sorted_sort_id sort_Nil_iff)

lemma calculateMedian_defined: "data \<noteq> [] \<Longrightarrow> calculateMedian data \<noteq> None"
  unfolding calculateMedian_def Let_def by (simp del: not_None_eq)






text \<open>
  The value the spec's rule gives is a median in the sense of order statistics: at least
  half of the elements are not above it, and at least half are not below it.
\<close>

lemma length_filter_sort: "length (filter P (sort xs)) = length (filter P xs)"
  by (simp add: filter_sort)

lemma length_filter_prefix:
  assumes "k \<le> length xs" and "\<And>i. i < k \<Longrightarrow> P (xs ! i)"
  shows "k \<le> length (filter P xs)"
proof -
  have "filter P (take k xs) = take k xs"
    using assms by (intro filter_True) (auto simp: in_set_conv_nth)
  then have "length (filter P (take k xs)) = k" using assms(1) by simp
  moreover have "length (filter P (take k xs)) \<le> length (filter P xs)"
    by (metis append_take_drop_id filter_append length_append le_add1)
  ultimately show ?thesis by simp
qed

lemma length_filter_suffix:
  assumes "k \<le> length xs" and "\<And>i. k \<le> i \<Longrightarrow> i < length xs \<Longrightarrow> P (xs ! i)"
  shows "length xs - k \<le> length (filter P xs)"
proof -
  have "filter P (drop k xs) = drop k xs"
    using assms by (intro filter_True) (auto simp: in_set_conv_nth)
  then have "length (filter P (drop k xs)) = length xs - k" by simp
  moreover have "length (filter P (drop k xs)) \<le> length (filter P xs)"
    by (metis append_take_drop_id filter_append length_append le_add2)
  ultimately show ?thesis by simp
qed

lemma spec_median_halves:
  assumes "spec_median xs = Some m"
  shows "length xs \<le> 2 * length (filter (\<lambda>x. x \<le> m) xs)"
    and "length xs \<le> 2 * length (filter (\<lambda>x. m \<le> x) xs)"
proof -
  define s where "s = sort xs"
  define n where "n = length xs"
  have ne: "xs \<noteq> []" using assms by (auto simp: spec_median_def split: if_splits)
  then have n0: "0 < n" by (simp add: n_def)
  have ls: "length s = n" by (simp add: s_def n_def)
  have sorted: "sorted s" by (simp add: s_def)
  have mono: "i \<le> j \<Longrightarrow> j < n \<Longrightarrow> s ! i \<le> s ! j" for i j
    using sorted ls by (simp add: sorted_nth_mono)
  have le: "length (filter P s) = length (filter P xs)" for P
    by (simp add: s_def length_filter_sort)
  show "length xs \<le> 2 * length (filter (\<lambda>x. x \<le> m) xs)"
  proof (cases "odd n")
    case True
    then have m: "m = s ! ((n - 1) div 2)"
      using assms ne by (simp add: spec_median_def s_def n_def)
    have "(n - 1) div 2 + 1 \<le> length (filter (\<lambda>x. x \<le> m) s)"
      using n0 by (intro length_filter_prefix) (auto simp: ls m intro!: mono)
    then show ?thesis using True unfolding le n_def [symmetric] by (auto elim!: oddE)
  next
    case False
    then have m: "m = (s ! (n div 2 - 1) + s ! (n div 2)) / 2"
      using assms ne by (simp add: spec_median_def s_def n_def)
    have n2: "2 \<le> n" using False n0 by (cases "n = 1") auto
    have "s ! (n div 2 - 1) \<le> s ! (n div 2)" using n2 by (intro mono) auto
    then have a: "s ! (n div 2 - 1) \<le> m" by (simp add: m)
    have "i < n div 2 \<Longrightarrow> s ! i \<le> m" for i
      using mono [of i "n div 2 - 1"] a n2 by fastforce
    then have "n div 2 \<le> length (filter (\<lambda>x. x \<le> m) s)"
      by (intro length_filter_prefix) (auto simp: ls)
    then show ?thesis using False unfolding le n_def [symmetric] by auto
  qed
  show "length xs \<le> 2 * length (filter (\<lambda>x. m \<le> x) xs)"
  proof (cases "odd n")
    case True
    then have m: "m = s ! ((n - 1) div 2)"
      using assms ne by (simp add: spec_median_def s_def n_def)
    have "length s - (n - 1) div 2 \<le> length (filter (\<lambda>x. m \<le> x) s)"
      using n0 by (intro length_filter_suffix) (auto simp: ls m intro!: mono)
    then show ?thesis using True unfolding le ls n_def [symmetric] by (auto elim!: oddE)
  next
    case False
    then have m: "m = (s ! (n div 2 - 1) + s ! (n div 2)) / 2"
      using assms ne by (simp add: spec_median_def s_def n_def)
    have n2: "2 \<le> n" using False n0 by (cases "n = 1") auto
    have "s ! (n div 2 - 1) \<le> s ! (n div 2)" using n2 by (intro mono) auto
    then have a: "m \<le> s ! (n div 2)" by (simp add: m)
    have "n div 2 \<le> i \<Longrightarrow> i < n \<Longrightarrow> m \<le> s ! i" for i
      using mono [of "n div 2" i] a by fastforce
    then have "length s - n div 2 \<le> length (filter (\<lambda>x. m \<le> x) s)"
      by (intro length_filter_suffix) (auto simp: ls)
    then show ?thesis using False unfolding le ls n_def [symmetric] by auto
  qed
qed

section \<open>Quartiles\<close>



text \<open>
  C6. On every non-empty sample the median is defined and is the \<open>q2\<close> field of the
  quartiles of the same sample.
\<close>

theorem median_is_q2:
  "data \<noteq> [] \<Longrightarrow>
     calculateMedian data \<noteq> None
     \<and> map_option q2 (calculateQuartiles data) = Some (calculateMedian data)"
  by (simp add: calculateQuartiles_def Let_def calculateMedian_sort calculateMedian_defined)

theorem median_is_q2_witness:
  "[4, 1, 3, 2 :: real] \<noteq> []
   \<and> calculateMedian [4, 1, 3, 2] = Some 2.5
   \<and> map_option q2 (calculateQuartiles [4, 1, 3, 2]) = Some (Some 2.5)"
  using median_is_q2 [of "[4, 1, 3, 2]"]
  by (simp add: calculateMedian_def)

text \<open>
  C10. On a single-element sample \<open>[x]\<close> the quartiles are \<open>q2 = x\<close> with \<open>q1\<close> and \<open>q3\<close>
  \<open>null\<close>, and the IQR is \<open>0\<close>, not \<open>null\<close>: \<open>null - null\<close> is \<open>0\<close>.
\<close>

theorem single_element_quartiles:
  "calculateQuartiles [x] = Some \<lparr> q1 = None, q2 = Some x, q3 = None \<rparr>
   \<and> calculateIQR [x] = Some 0"
  by (simp add: calculateIQR_def calculateQuartiles_def calculateMedian_def ToNumber_def)

section \<open>Variance and standard deviation\<close>







section \<open>Mode\<close>

lemma isInteger_floor_ceiling: "isInteger x \<longleftrightarrow> \<lfloor>x\<rfloor> = \<lceil>x\<rceil>"
  unfolding isInteger_def
  by (metis ceiling_of_int floor_of_int of_int_floor_cancel floor_le_ceiling ceiling_altdef zle_add1_eq_le less_irrefl)

lemma get_prop_map_of: "get_prop f k = map_of f k"
  by (induction f) auto

lemma get_prop_set_prop:
  "get_prop (set_prop f k v) k' = (if k' = k then Some v else get_prop f k')"
  by (induction f) auto

lemma keys_set_prop:
  "map fst (set_prop f k v) = (if k \<in> set (map fst f) then map fst f else map fst f @ [k])"
proof (induction f)
  case Nil
  then show ?case by simp
next
  case (Cons p f)
  obtain k' w where p: "p = (k', w)" by (cases p)
  show ?case using Cons by (cases "k' = k") (simp_all add: p)
qed

lemma counted_Nil: "counted [] ([], 0)"
  by (simp add: counted_def)

lemma counted_step:
  assumes "counted xs st"
  shows "counted (xs @ [x]) (count_val st x)"
proof -
  obtain f m where st: "st = (f, m)" by (cases st)
  from assms st have
    g: "\<And>k. get_prop f k = (if k \<in> set xs then Some (count_list xs k) else None)"
    and d: "distinct (map fst f)" and s: "set (map fst f) = set xs"
    and le: "\<And>k. count_list xs k \<le> m"
    and mx: "if xs = [] then m = 0 else \<exists>k\<in>set xs. count_list xs k = m"
    by (simp_all add: counted_def split: if_splits)
  define c where "c = count_list xs x + 1"
  have c: "(case get_prop f x of None \<Rightarrow> 0 | Some n \<Rightarrow> n) + 1 = c"
    by (simp add: g c_def)
  have cv: "count_val st x = (set_prop f x c, if c > m then c else m)"
    unfolding count_val_def Let_def st fst_conv snd_conv c ..
  have 1: "\<And>k. get_prop (set_prop f x c) k
            = (if k \<in> set (xs @ [x]) then Some (count_list (xs @ [x]) k) else None)"
    by (auto simp add: get_prop_set_prop g c_def)
  have 2: "distinct (map fst (set_prop f x c))"
    using d by (simp add: keys_set_prop)
  have 3: "set (map fst (set_prop f x c)) = set (xs @ [x])"
    using s by (auto simp add: keys_set_prop)
  have 4: "count_list (xs @ [x]) k \<le> (if c > m then c else m)" for k
    using le [of k] le [of x] by (simp add: c_def)
  have 5: "\<exists>k\<in>set (xs @ [x]). count_list (xs @ [x]) k = (if c > m then c else m)"
  proof (cases "c > m")
    case True
    then show ?thesis by (auto simp add: c_def)
  next
    case False
    then have "xs \<noteq> []" using mx by (auto simp add: c_def)
    with mx obtain k where k: "k \<in> set xs" "count_list xs k = m" by auto
    have "k \<noteq> x" using k False by (auto simp add: c_def)
    with k False show ?thesis by auto
  qed
  show ?thesis
    unfolding cv counted_def using 1 2 3 4 5 by simp
qed

lemma counted_foldl: "counted xs (foldl count_val ([], 0) xs)"
  by (induction xs rule: rev_induct) (simp_all add: counted_Nil counted_step)


lemma counted_max:
  assumes "counted data st" "data \<noteq> []"
  shows "snd st = max_frequency data"
proof -
  from assms obtain k where "k \<in> set data" "count_list data k = snd st"
    by (auto simp add: counted_def)
  then have "snd st \<in> count_list data ` set data" by (metis imageI)
  moreover have "\<And>y. y \<in> count_list data ` set data \<Longrightarrow> y \<le> snd st"
    using assms by (auto simp add: counted_def)
  ultimately show ?thesis
    unfolding max_frequency_def by (intro Max_eqI [symmetric]) auto
qed

lemma counted_all_once:
  assumes "counted data st" "data \<noteq> []"
  shows "snd st = 1 \<longleftrightarrow> all_once data"
proof
  assume m: "snd st = 1"
  have "count_list data x = 1" if "x \<in> set data" for x
  proof -
    have "count_list data x \<le> 1" using assms m by (auto simp add: counted_def)
    moreover have "count_list data x \<noteq> 0" using that by (simp add: count_list_0_iff)
    ultimately show ?thesis by simp
  qed
  then show "all_once data" by (simp add: all_once_def)
next
  assume "all_once data"
  moreover from assms obtain k where "k \<in> set data" "count_list data k = snd st"
    by (auto simp add: counted_def)
  ultimately show "snd st = 1" by (auto simp add: all_once_def)
qed

lemma set_Object_keys: "set (Object_keys f) = set (map fst f)"
  by (auto simp add: Object_keys_def)

lemma distinct_Object_keys: "distinct (map fst f) \<Longrightarrow> distinct (Object_keys f)"
  by (auto simp add: Object_keys_def)

lemma counted_modes:
  assumes "counted data st" "data \<noteq> []"
  shows "set (filter (\<lambda>key. get_prop (fst st) key = Some (snd st)) (Object_keys (fst st)))
           = most_frequent data"
    and "distinct (filter (\<lambda>key. get_prop (fst st) key = Some (snd st)) (Object_keys (fst st)))"
proof -
  have m: "snd st = max_frequency data" using assms by (rule counted_max)
  have g: "get_prop (fst st) k = (if k \<in> set data then Some (count_list data k) else None)" for k
    using assms by (simp add: counted_def)
  have s: "set (map fst (fst st)) = set data" using assms by (simp add: counted_def)
  show "set (filter (\<lambda>key. get_prop (fst st) key = Some (snd st)) (Object_keys (fst st)))
           = most_frequent data"
    using s by (auto simp add: set_Object_keys g m most_frequent_def)
  show "distinct (filter (\<lambda>key. get_prop (fst st) key = Some (snd st)) (Object_keys (fst st)))"
    using assms by (simp add: counted_def distinct_Object_keys)
qed

text \<open>
  \<open>Statistics.calculateMode\<close> returns the sentinel exactly when every value occurs
  once, and otherwise the values of largest frequency in ascending order.
  \<open>StatCalculator.calculateMode\<close> returns the same sentinel and the same values, each
  once, in some order.
\<close>

lemma Statistics_calculateMode_correct:
  assumes "data \<noteq> []"
  shows "Statistics_calculateMode data
           = Some (if all_once data then [Str ''No mode'']
                   else map Num (sorted_list_of_set (most_frequent data)))"
proof -
  let ?st = "foldl count_val ([], 0) data"
  let ?ms = "filter (\<lambda>key. get_prop (fst ?st) key = Some (snd ?st)) (Object_keys (fst ?st))"
  have c: "counted data ?st" by (rule counted_foldl)
  have 1: "snd ?st = 1 \<longleftrightarrow> all_once data" using c assms by (rule counted_all_once)
  have "set (sort ?ms) = most_frequent data" "distinct (sort ?ms)"
    using counted_modes [OF c assms] by simp_all
  moreover have "finite (most_frequent data)" by (simp add: most_frequent_def)
  ultimately have 2: "sort ?ms = sorted_list_of_set (most_frequent data)"
    by (intro sorted_distinct_set_unique) simp_all
  show ?thesis
    using assms 1 2 by (simp add: Statistics_calculateMode_def Let_def)
qed

lemma calculateMode_correct_up_to_order:
  assumes "data \<noteq> []"
  shows "(calculateMode data = Some [Str ''No mode''] \<longleftrightarrow> all_once data)
         \<and> (\<not> all_once data \<longrightarrow>
              (\<exists>ms. calculateMode data = Some (map Num ms) \<and> distinct ms
                    \<and> set ms = most_frequent data))"
proof -
  let ?st = "foldl count_val ([], 0) data"
  let ?ms = "filter (\<lambda>key. get_prop (fst ?st) key = Some (snd ?st)) (Object_keys (fst ?st))"
  have c: "counted data ?st" by (rule counted_foldl)
  have 1: "snd ?st = 1 \<longleftrightarrow> all_once data" using c assms by (rule counted_all_once)
  have 2: "set ?ms = most_frequent data" "distinct ?ms"
    using counted_modes [OF c assms] by simp_all
  have 3: "calculateMode data = Some (if all_once data then [Str ''No mode''] else map Num ?ms)"
    using assms 1 by (simp add: calculateMode_def Let_def)
  show ?thesis
    using 2 unfolding 3 by (auto simp add: map_eq_Cons_conv)
qed

text \<open>
  C3. The sentinel and the set of modes are as the spec says in both files, and
  \<open>Statistics.calculateMode\<close> lists the modes in ascending order. \<open>StatCalculator.calculateMode\<close>
  does not sort: on 2.5, 2.5, 1.5, 1.5 it returns the modes in the order of first
  occurrence, 2.5 before 1.5, and on 3, 3, -1, -1 the array index 3 before -1.
\<close>

theorem calculateMode_not_ascending:
  "calculateMode [2.5, 2.5, 1.5, 1.5] = Some [Num 2.5, Num 1.5]
   \<and> Statistics_calculateMode [2.5, 2.5, 1.5, 1.5] = Some [Num 1.5, Num 2.5]
   \<and> calculateMode [3, 3, - 1, - 1] = Some [Num 3, Num (- 1)]
   \<and> calculateMode [1, 2, 3] = Some [Str ''No mode'']
   \<and> calculateMode [1, 1, 2, 3] = Some [Num 1]"
  by (simp add: calculateMode_def Statistics_calculateMode_def count_val_def Object_keys_def
      is_array_index_def isInteger_floor_ceiling)


section \<open>Rounding to the nearest integer\<close>

lemma round_even_of_int [simp]: "round_even (of_int n) = n"
  by (simp add: round_even_def)

lemma round_even_0 [simp]: "round_even 0 = 0"
  using round_even_of_int [of 0] by simp

lemma round_even_1 [simp]: "round_even 1 = 1"
  using round_even_of_int [of 1] by simp

lemma round_even_numeral [simp]: "round_even (numeral k) = numeral k"
  using round_even_of_int [of "numeral k"] by simp

lemma round_even_error: "\<bar>of_int (round_even q) - q\<bar> \<le> 1 / 2"
  unfolding round_even_def Let_def by (auto simp: abs_if) linarith+

lemma round_even_near: "\<bar>q - of_int n\<bar> < 1 / 2 \<Longrightarrow> round_even q = n"
  using round_even_error [of q] by linarith

lemma floor_minus_not_int: "(q :: real) \<notin> \<int> \<Longrightarrow> \<lfloor>- q\<rfloor> = - \<lfloor>q\<rfloor> - 1"
proof -
  assume a: "q \<notin> \<int>"
  have "of_int \<lfloor>q\<rfloor> \<noteq> q" using a by (metis Ints_of_int)
  then have "of_int \<lfloor>q\<rfloor> < q" using of_int_floor_le [of q] by linarith
  then show ?thesis by linarith
qed

lemma round_even_minus: "round_even (- q) = - round_even q"
proof (cases "q \<in> \<int>")
  case True
  then obtain n where "q = of_int n" by (auto elim: Ints_cases)
  then show ?thesis by (simp flip: of_int_minus)
next
  case False
  note f = floor_minus_not_int [OF False]
  have lt: "of_int \<lfloor>q\<rfloor> < q" using False of_int_floor_le [of q] by (metis Ints_of_int less_eq_real_def)
  consider "q - of_int \<lfloor>q\<rfloor> < 1 / 2" | "q - of_int \<lfloor>q\<rfloor> > 1 / 2" | "q - of_int \<lfloor>q\<rfloor> = 1 / 2"
    by linarith
  then show ?thesis
  proof cases
    case 1
    then show ?thesis unfolding round_even_def Let_def f by simp
  next
    case 2
    then show ?thesis unfolding round_even_def Let_def f by simp
  next
    case 3
    then show ?thesis unfolding round_even_def Let_def f by simp
  qed
qed


section \<open>Binades\<close>

lemma powi_less_iff: "1 < (b::real) \<Longrightarrow> b powi m < b powi n \<longleftrightarrow> m < n"
proof
  assume b: "1 < b" and l: "b powi m < b powi n"
  show "m < n"
  proof (rule ccontr)
    assume "\<not> m < n"
    then have "b powi n \<le> b powi m" using b by (intro power_int_increasing) simp_all
    then show False using l by simp
  qed
qed (simp add: power_int_strict_increasing)

lemma powi_le_iff: "1 < (b::real) \<Longrightarrow> b powi m \<le> b powi n \<longleftrightarrow> m \<le> n"
  using powi_less_iff [of b n m] by (simp add: not_less [symmetric])

lemma pow2_less_iff: "(2::real) powi m < 2 powi n \<longleftrightarrow> m < n"
  by (rule powi_less_iff) simp

lemma pow2_le_iff: "(2::real) powi m \<le> 2 powi n \<longleftrightarrow> m \<le> n"
  by (rule powi_le_iff) simp

lemma pow10_less_iff: "(10::real) powi m < 10 powi n \<longleftrightarrow> m < n"
  by (rule powi_less_iff) simp

lemma pow10_le_iff: "(10::real) powi m \<le> 10 powi n \<longleftrightarrow> m \<le> n"
  by (rule powi_le_iff) simp

lemma floor_log_powi:
  assumes "0 < x" and "1 < b"
  shows "\<lfloor>log b x\<rfloor> = k \<longleftrightarrow> b powi k \<le> x \<and> x < b powi (k + 1)"
proof -
  have b: "0 \<le> b" "b \<noteq> 0 \<or> 0 < k" "b \<noteq> 0 \<or> 0 < k + 1" using assms(2) by auto
  have "b powr real_of_int k = b powi k" "b powr real_of_int (k + 1) = b powi (k + 1)"
    by (rule powr_real_of_int' [OF b(1,2)], rule powr_real_of_int' [OF b(1,3)])
  then show ?thesis using floor_log_eq_powr_iff [OF assms, of k] by (simp only:)
qed

lemma binade_eqI:
  assumes "2 powi e \<le> \<bar>x\<bar>" and "\<bar>x\<bar> < 2 powi (e + 1)" and "- 1022 \<le> e"
  shows "binade x = e"
proof -
  have "(0::real) < 2 powi e" by simp
  then have pos: "0 < \<bar>x\<bar>" using assms(1) by linarith
  have "\<lfloor>log 2 \<bar>x\<bar>\<rfloor> = e"
    using assms(1,2) floor_log_powi [OF pos, of 2 e] by simp
  then show ?thesis using assms(3) pos by (simp add: binade_def)
qed

lemma binade_small:
  assumes "x \<noteq> 0" and "\<bar>x\<bar> < 2 powi (- 1022)"
  shows "binade x = - 1022"
proof -
  have pos: "0 < \<bar>x\<bar>" using assms(1) by simp
  define k where "k = \<lfloor>log 2 \<bar>x\<bar>\<rfloor>"
  have "2 powi k \<le> \<bar>x\<bar>"
    using floor_log_powi [OF pos, of 2 k] by (simp add: k_def)
  then have "(2::real) powi k < 2 powi (- 1022)" using assms(2) by linarith
  then have "k < - 1022" by (simp only: pow2_less_iff)
  then show ?thesis by (simp add: binade_def k_def)
qed

lemma binade_bounds:
  assumes "2 powi (- 1022) \<le> \<bar>x\<bar>"
  shows "2 powi (binade x) \<le> \<bar>x\<bar>" and "\<bar>x\<bar> < 2 powi (binade x + 1)"
    and "- 1022 \<le> binade x"
proof -
  have "(0::real) < 2 powi (- 1022)" by (rule zero_less_power_int) simp
  then have pos: "0 < \<bar>x\<bar>" using assms by linarith
  define k where "k = \<lfloor>log 2 \<bar>x\<bar>\<rfloor>"
  have k: "2 powi k \<le> \<bar>x\<bar>" "\<bar>x\<bar> < 2 powi (k + 1)"
    using floor_log_powi [OF pos, of 2 k] by (simp_all add: k_def)
  have "(2::real) powi (- 1022) < 2 powi (k + 1)" using assms k(2) by linarith
  then have k1: "- 1022 < k + 1" by (simp only: pow2_less_iff)
  then have b: "binade x = k" using pos by (simp add: binade_def k_def)
  show "2 powi (binade x) \<le> \<bar>x\<bar>" "\<bar>x\<bar> < 2 powi (binade x + 1)" "- 1022 \<le> binade x"
    using k b k1 by simp_all
qed

lemma binade_upper: "x \<noteq> 0 \<Longrightarrow> \<bar>x\<bar> < 2 powi (binade x + 1)"
proof (cases "2 powi (- 1022) \<le> \<bar>x\<bar>")
  case True
  then show ?thesis by (rule binade_bounds)
next
  case False
  assume "x \<noteq> 0"
  then have "binade x = - 1022" using False by (simp add: binade_small)
  moreover have "(2::real) powi (- 1022) < 2 powi (- 1022 + 1)"
    by (simp only: pow2_less_iff)
  ultimately show ?thesis using False by simp
qed

lemma binade_ge: "- 1022 \<le> binade x"
  by (simp add: binade_def)

lemma binade_minus [simp]: "binade (- x) = binade x"
  by (simp add: binade_def)

lemma ulp_minus [simp]: "ulp (- x) = ulp x"
  by (simp add: ulp_def)

lemma ulp_pos [simp]: "0 < ulp x"
  by (simp add: ulp_def)

lemma ulp_neq_0 [simp]: "ulp x \<noteq> 0"
  using ulp_pos [of x] by (simp del: ulp_pos)

lemma ulp_ge_0 [simp]: "0 \<le> ulp x"
  using ulp_pos [of x] by (simp del: ulp_pos)

lemma binade_0: "binade 0 = - 1022"
  by (simp add: binade_def)


section \<open>Rounding to a double\<close>

lemma round_even_abs_le: "\<bar>q\<bar> \<le> of_int n \<Longrightarrow> \<bar>round_even q\<bar> \<le> n"
  using round_even_error [of q] by linarith

lemma round_even_ge: "of_int n \<le> q \<Longrightarrow> n \<le> round_even q"
  using round_even_error [of q] by linarith

lemma round_even_le: "q \<le> of_int n \<Longrightarrow> round_even q \<le> n"
  using round_even_error [of q] by linarith

lemma fl_Fin_iff:
  "fl x = Fin r \<longleftrightarrow> r = of_int (round_even (x / ulp x)) * ulp x \<and> \<bar>r\<bar> < overflow_threshold"
  unfolding fl_def Let_def by (auto simp: not_le)

lemma fl_error: "fl x = Fin r \<Longrightarrow> \<bar>r - x\<bar> \<le> ulp x / 2"
proof -
  assume "fl x = Fin r"
  then have r: "r = of_int (round_even (x / ulp x)) * ulp x" by (simp add: fl_Fin_iff)
  have "\<bar>of_int (round_even (x / ulp x)) - x / ulp x\<bar> * ulp x \<le> 1 / 2 * ulp x"
    by (intro mult_right_mono round_even_error less_imp_le ulp_pos)
  moreover have "\<bar>of_int (round_even (x / ulp x)) - x / ulp x\<bar> * ulp x = \<bar>r - x\<bar>"
  proof -
    have "\<bar>of_int (round_even (x / ulp x)) - x / ulp x\<bar> * ulp x
        = \<bar>(of_int (round_even (x / ulp x)) - x / ulp x) * ulp x\<bar>"
      using ulp_pos [of x] by (simp only: abs_mult abs_of_pos)
    also have "(of_int (round_even (x / ulp x)) - x / ulp x) * ulp x = r - x"
      unfolding r by (simp add: left_diff_distrib)
    finally show ?thesis .
  qed
  ultimately show ?thesis by simp
qed

lemma overflow_threshold_pos [simp]: "0 < overflow_threshold"
  by (simp add: overflow_threshold_def)

lemma overflow_threshold_powi: "overflow_threshold = 2 powi 1024"
  unfolding overflow_threshold_def by (simp only: power_int_numeral)

lemma pow2_add: "(2::real) powi a * 2 powi b = 2 powi (a + b)"
  by (simp add: power_int_add)

lemma pow10_add: "(10::real) powi a * 10 powi b = 10 powi (a + b)"
  by (simp add: power_int_add)

lemma fl_0 [simp]: "fl 0 = Fin 0"
  by (simp add: fl_Fin_iff)

lemma fl_minus: "fl (- x) = negate (fl x)"
proof (cases "x = 0")
  case True
  then show ?thesis by (simp add: negate_def)
next
  case False
  then show ?thesis
    unfolding fl_def Let_def negate_def by (simp add: round_even_minus)
qed

lemma fl_at:
  assumes "2 powi e \<le> \<bar>x\<bar>" and "\<bar>x\<bar> < 2 powi (e + 1)" and "- 1022 \<le> e" and "e \<le> 1022"
  shows "fl x = Fin (of_int (round_even (x / 2 powi (e - 52))) * 2 powi (e - 52))"
proof -
  have b: "binade x = e" using assms(1-3) by (rule binade_eqI)
  have u: "ulp x = 2 powi (e - 52)" by (simp add: ulp_def b)
  have "\<bar>x / 2 powi (e - 52)\<bar> = \<bar>x\<bar> * 2 powi (52 - e)"
    by (simp add: power_int_diff)
  also have "\<dots> \<le> 2 powi (e + 1) * 2 powi (52 - e)"
    using assms(2) by (intro mult_right_mono) simp_all
  also have "\<dots> = 2 powi 53" by (simp only: pow2_add) simp
  also have "\<dots> = of_int (2 ^ 53)" by simp
  finally have "\<bar>round_even (x / 2 powi (e - 52))\<bar> \<le> 2 ^ 53" by (rule round_even_abs_le)
  then have "\<bar>of_int (round_even (x / 2 powi (e - 52))) :: real\<bar> \<le> of_int (2 ^ 53)"
    by (simp only: of_int_abs [symmetric] of_int_le_iff)
  also have "(of_int (2 ^ 53) :: real) = 2 powi 53" by simp
  finally have "\<bar>of_int (round_even (x / 2 powi (e - 52))) * 2 powi (e - 52) :: real\<bar>
      \<le> 2 powi 53 * 2 powi (e - 52)"
    by (simp only: abs_mult) (intro mult_mono, simp_all)
  also have "\<dots> = 2 powi (e + 1)" by (simp only: pow2_add) (simp add: add.commute)
  also have "\<dots> < 2 powi 1024" using assms(4) by (simp only: pow2_less_iff)
  finally have lt: "\<bar>of_int (round_even (x / 2 powi (e - 52))) * 2 powi (e - 52) :: real\<bar>
      < 2 powi 1024" .
  show ?thesis unfolding fl_Fin_iff u overflow_threshold_powi by (intro conjI refl lt)
qed


lemma fl_exact:
  assumes "x / ulp x \<in> \<int>" and "\<bar>x\<bar> < overflow_threshold"
  shows "fl x = Fin x"
proof -
  from assms(1) obtain n where n: "x / ulp x = of_int n" by (auto elim: Ints_cases)
  have "x / ulp x * ulp x = x" by simp
  then have "of_int (round_even (x / ulp x)) * ulp x = x" by (simp add: n)
  then show ?thesis using assms(2) by (simp add: fl_Fin_iff)
qed

lemma powi_nat: "0 \<le> k \<Longrightarrow> (b::real) powi k = b ^ nat k"
  by (simp add: power_int_def)

lemma fl_dyadic:
  assumes m: "\<bar>m\<bar> < 2 ^ 53" and j: "- 1074 \<le> j"
    and r: "\<bar>of_int m * 2 powi j\<bar> < overflow_threshold"
  shows "fl (of_int m * 2 powi j) = Fin (of_int m * 2 powi j)"
proof (cases "m = 0")
  case True
  then show ?thesis by simp
next
  case False
  define x :: real where "x = of_int m * 2 powi j"
  have x0: "x \<noteq> 0" using False by (simp add: x_def)
  have ax: "\<bar>x\<bar> = of_int \<bar>m\<bar> * 2 powi j" by (simp add: x_def abs_mult)
  have "(of_int \<bar>m\<bar> :: real) < of_int (2 ^ 53)" using m by (simp only: of_int_less_iff)
  then have "(of_int \<bar>m\<bar> :: real) < 2 powi 53" by simp
  then have "\<bar>x\<bar> < 2 powi 53 * 2 powi j" unfolding ax by (intro mult_strict_right_mono) simp_all
  then have lt: "\<bar>x\<bar> < 2 powi (53 + j)" by (simp only: pow2_add)
  have le: "binade x - 52 \<le> j"
  proof (cases "2 powi (- 1022) \<le> \<bar>x\<bar>")
    case True
    then have "2 powi (binade x) \<le> \<bar>x\<bar>" by (rule binade_bounds)
    then have "(2::real) powi (binade x) < 2 powi (53 + j)" using lt by linarith
    then have "binade x < 53 + j" by (simp only: pow2_less_iff)
    then show ?thesis by simp
  next
    case False
    then have "binade x = - 1022" using x0 by (simp add: binade_small)
    then show ?thesis using j by simp
  qed
  have "x / ulp x = of_int m * (2 powi j / 2 powi (binade x - 52))"
    by (simp add: x_def ulp_def)
  also have "2 powi j / 2 powi (binade x - 52) = (2::real) powi (j - (binade x - 52))"
    by (simp add: power_int_diff)
  also have "\<dots> = 2 ^ nat (j - (binade x - 52))" using le by (simp add: powi_nat)
  also have "of_int m * 2 ^ nat (j - (binade x - 52)) = (of_int (m * 2 ^ nat (j - (binade x - 52))) :: real)"
    by simp
  finally have "x / ulp x \<in> \<int>" by (simp only: Ints_of_int)
  then show ?thesis using r unfolding x_def [symmetric] by (rule fl_exact)
qed

lemma fl_of_int: "\<bar>m\<bar> < 2 ^ 53 \<Longrightarrow> fl (of_int m) = Fin (of_int m)"
proof -
  assume m: "\<bar>m\<bar> < 2 ^ 53"
  then have "(of_int \<bar>m\<bar> :: real) < of_int (2 ^ 53)" by (simp only: of_int_less_iff)
  also have "(of_int (2 ^ 53) :: real) = 2 ^ 53" by simp
  also have "(2::real) ^ 53 < 2 ^ 1024" by (rule power_strict_increasing) simp_all
  finally have "\<bar>of_int m * 2 powi 0 :: real\<bar> < overflow_threshold"
    by (simp add: overflow_threshold_def)
  from fl_dyadic [OF m _ this] show ?thesis by simp
qed

lemma fl_idem:
  assumes "fl x = Fin r"
  shows "fl r = Fin r"
proof (cases "x = 0")
  case True
  then show ?thesis using assms by simp
next
  case False
  define N where "N = round_even (x / ulp x)"
  have r: "r = of_int N * ulp x" and lt: "\<bar>r\<bar> < overflow_threshold"
    using assms unfolding fl_Fin_iff N_def by blast+
  have "\<bar>x / ulp x\<bar> = \<bar>x\<bar> * 2 powi (52 - binade x)"
    by (simp add: ulp_def power_int_diff)
  also have "\<dots> \<le> 2 powi (binade x + 1) * 2 powi (52 - binade x)"
    using binade_upper [OF False] by (intro mult_right_mono) simp_all
  also have "\<dots> = 2 powi 53" by (simp only: pow2_add) simp
  also have "\<dots> = of_int (2 ^ 53)" by simp
  finally have N: "\<bar>N\<bar> \<le> 2 ^ 53" unfolding N_def by (rule round_even_abs_le)
  show ?thesis
  proof (cases "\<bar>N\<bar> = 2 ^ 53")
    case False
    then have "\<bar>N\<bar> < 2 ^ 53" using N by simp
    moreover have "- 1074 \<le> binade x - 52" using binade_ge [of x] by simp
    moreover have "\<bar>of_int N * 2 powi (binade x - 52)\<bar> < overflow_threshold"
      using lt by (simp add: r ulp_def)
    ultimately have "fl (of_int N * 2 powi (binade x - 52)) = Fin (of_int N * 2 powi (binade x - 52))"
      by (rule fl_dyadic)
    then show ?thesis by (simp add: r ulp_def)
  next
    case True
    define M :: int where "M = (if N < 0 then - (2 ^ 52) else 2 ^ 52)"
    have NM: "N = 2 * M" using True by (auto simp: M_def abs_if split: if_splits)
    have M: "\<bar>M\<bar> < 2 ^ 53" by (simp add: M_def)
    have "(of_int N :: real) * 2 powi (binade x - 52) = of_int M * (2 powi 1 * 2 powi (binade x - 52))"
      by (simp add: NM)
    also have "\<dots> = of_int M * 2 powi (binade x - 51)" by (simp only: pow2_add) simp
    finally have e: "r = of_int M * 2 powi (binade x - 51)" by (simp add: r ulp_def)
    have "fl (of_int M * 2 powi (binade x - 51)) = Fin (of_int M * 2 powi (binade x - 51))"
      using M binade_ge [of x] lt by (intro fl_dyadic) (simp_all add: e)
    then show ?thesis by (simp add: e)
  qed
qed

lemma is_double_fl: "fl x = Fin r \<Longrightarrow> is_double r"
  by (simp add: is_double_def fl_idem)


lemma round_even_abs_ge: "of_int n \<le> \<bar>q\<bar> \<Longrightarrow> n \<le> \<bar>round_even q\<bar>"
  using round_even_error [of q] by linarith

lemma fl_abs_ge:
  assumes "2 powi e \<le> \<bar>x\<bar>" and "- 1022 \<le> e" and "fl x = Fin r"
  shows "2 powi e \<le> \<bar>r\<bar>"
proof -
  have "(2::real) powi (- 1022) \<le> 2 powi e" using assms(2) by (simp only: pow2_le_iff)
  then have n: "2 powi (- 1022) \<le> \<bar>x\<bar>" using assms(1) by linarith
  note b = binade_bounds [OF n]
  have "(2::real) powi e < 2 powi (binade x + 1)" using assms(1) b(2) by linarith
  then have eb: "e \<le> binade x" by (simp only: pow2_less_iff)
  define N where "N = round_even (x / ulp x)"
  have r: "r = of_int N * ulp x" using assms(3) unfolding fl_Fin_iff N_def by blast
  have "(2::real) powi 52 = 2 powi (binade x) * 2 powi (52 - binade x)"
    by (simp only: pow2_add) simp
  also have "\<dots> \<le> \<bar>x\<bar> * 2 powi (52 - binade x)"
    using b(1) by (intro mult_right_mono) simp_all
  also have "\<dots> = \<bar>x / ulp x\<bar>" by (simp add: ulp_def power_int_diff)
  finally have "of_int (2 ^ 52) \<le> \<bar>x / ulp x\<bar>" by simp
  then have "2 ^ 52 \<le> \<bar>N\<bar>" unfolding N_def by (rule round_even_abs_ge)
  then have "(of_int (2 ^ 52) :: real) \<le> of_int \<bar>N\<bar>" by (simp only: of_int_le_iff)
  then have "(2::real) powi 52 \<le> \<bar>of_int N\<bar>" by simp
  then have "(2::real) powi 52 * 2 powi (binade x - 52) \<le> \<bar>of_int N\<bar> * 2 powi (binade x - 52)"
    by (intro mult_right_mono) simp_all
  then have "(2::real) powi (binade x) \<le> \<bar>r\<bar>"
    by (simp only: pow2_add r ulp_def abs_mult) simp
  moreover have "(2::real) powi e \<le> 2 powi (binade x)" using eb by (simp only: pow2_le_iff)
  ultimately show ?thesis by linarith
qed

lemma fl_abs_less:
  assumes "fl v = Fin y" and "\<bar>y\<bar> < 2 powi p" and "- 1022 \<le> p"
  shows "\<bar>v\<bar> < 2 powi p"
proof (rule ccontr)
  assume "\<not> \<bar>v\<bar> < 2 powi p"
  then have "2 powi p \<le> \<bar>v\<bar>" by simp
  then have "2 powi p \<le> \<bar>y\<bar>" using assms(3,1) by (rule fl_abs_ge)
  then show False using assms(2) by simp
qed

lemma ulp_le:
  assumes "\<bar>v\<bar> < 2 powi p" and "- 1021 \<le> p"
  shows "ulp v \<le> 2 powi (p - 53)"
proof -
  have "binade v \<le> p - 1"
  proof (cases "2 powi (- 1022) \<le> \<bar>v\<bar>")
    case True
    then have "2 powi (binade v) \<le> \<bar>v\<bar>" by (rule binade_bounds)
    then have "(2::real) powi (binade v) < 2 powi p" using assms(1) by linarith
    then show ?thesis by (simp only: pow2_less_iff)
  next
    case False
    show ?thesis
    proof (cases "v = 0")
      case True
      then show ?thesis using assms by (simp add: binade_0)
    next
      case F: False
      then have "binade v = - 1022" using False by (simp add: binade_small)
      then show ?thesis using assms(2) by simp
    qed
  qed
  then show ?thesis unfolding ulp_def by (simp only: pow2_le_iff)
qed


lemma round_ulp_error: "\<bar>of_int (round_even (x / ulp x)) * ulp x - x\<bar> \<le> ulp x / 2"
proof -
  have "\<bar>of_int (round_even (x / ulp x)) - x / ulp x\<bar> * ulp x \<le> 1 / 2 * ulp x"
    by (intro mult_right_mono round_even_error less_imp_le ulp_pos)
  moreover have "\<bar>of_int (round_even (x / ulp x)) - x / ulp x\<bar> * ulp x
      = \<bar>of_int (round_even (x / ulp x)) * ulp x - x\<bar>"
  proof -
    have "\<bar>of_int (round_even (x / ulp x)) - x / ulp x\<bar> * ulp x
        = \<bar>(of_int (round_even (x / ulp x)) - x / ulp x) * ulp x\<bar>"
      using ulp_pos [of x] by (simp only: abs_mult abs_of_pos)
    also have "(of_int (round_even (x / ulp x)) - x / ulp x) * ulp x
        = of_int (round_even (x / ulp x)) * ulp x - x"
      by (simp add: left_diff_distrib)
    finally show ?thesis .
  qed
  ultimately show ?thesis by simp
qed

lemma fl_near:
  assumes "\<bar>x\<bar> < 2 powi p" and "- 1021 \<le> p" and "p \<le> 1023"
  shows "\<exists>r. fl x = Fin r \<and> \<bar>r - x\<bar> \<le> 2 powi (p - 54)"
proof -
  define r where "r = of_int (round_even (x / ulp x)) * ulp x"
  have u: "ulp x \<le> 2 powi (p - 53)" using assms(1,2) by (rule ulp_le)
  have "(2::real) powi (p - 53) = 2 * 2 powi (p - 54)"
    using power_int_add_1' [of "2::real" "p - 54"] by simp
  then have e: "\<bar>r - x\<bar> \<le> 2 powi (p - 54)"
    using round_ulp_error [of x] u unfolding r_def by linarith
  have "(2::real) powi (p - 54) \<le> 2 powi p" by (simp only: pow2_le_iff; simp)
  then have "\<bar>r\<bar> < 2 powi p + 2 powi p" using e assms(1) by linarith
  also have "\<dots> = 2 powi (p + 1)" using power_int_add_1' [of "2::real" p] by simp
  also have "\<dots> \<le> 2 powi 1024" using assms(3) by (simp only: pow2_le_iff; simp)
  finally have "\<bar>r\<bar> < overflow_threshold" by (simp only: overflow_threshold_powi)
  then have "fl x = Fin r" unfolding fl_Fin_iff r_def by simp
  then show ?thesis using e by blast
qed

section \<open>Arithmetic on finite numbers\<close>

lemma Number_add_Fin [simp]: "Number_add (Fin x) (Fin y) = fl (x + y)"
  by (simp add: Number_add_def)

lemma Number_subtract_Fin [simp]: "Number_subtract (Fin x) (Fin y) = fl (x - y)"
  by (simp add: Number_subtract_def negate_def)

lemma Number_multiply_Fin [simp]: "Number_multiply (Fin x) (Fin y) = fl (x * y)"
  by (simp add: Number_multiply_def)

lemma Number_divide_Fin [simp]: "y \<noteq> 0 \<Longrightarrow> Number_divide (Fin x) (Fin y) = fl (x / y)"
  by (simp add: Number_divide_def)

lemma Math_ceil_Fin [simp]: "Math_ceil (Fin x) = Fin (of_int \<lceil>x\<rceil>)"
  by (simp add: Math_ceil_def)

lemma fl_numeral: "numeral k < (2::int) ^ 53 \<Longrightarrow> fl (numeral k) = Fin (numeral k)"
  using fl_of_int [of "numeral k"] by simp

lemma fl_1 [simp]: "fl 1 = Fin 1"
  using fl_of_int [of 1] by simp

lemma pow2_small: "p \<le> 10 \<Longrightarrow> (2::real) powi (p - 54) \<le> 1 / 10000000000000"
proof -
  assume "p \<le> 10"
  then have "(2::real) powi (p - 54) \<le> 2 powi (- 44)" by (simp only: pow2_le_iff; simp)
  also have "\<dots> \<le> 1 / 10000000000000" by simp
  finally show ?thesis .
qed

lemma fl_close:
  assumes "\<bar>x\<bar> < 2 powi p" and "- 1021 \<le> p" and "p \<le> 10"
  shows "\<exists>r. fl x = Fin r \<and> x - 1 / 10000000000000 \<le> r \<and> r \<le> x + 1 / 10000000000000"
proof -
  obtain r where r: "fl x = Fin r" "\<bar>r - x\<bar> \<le> 2 powi (p - 54)"
    using fl_near [OF assms(1,2)] assms(3) by auto
  have "x - 1 / 10000000000000 \<le> r \<and> r \<le> x + 1 / 10000000000000"
    using r(2) pow2_small [OF assms(3)] by linarith
  then show ?thesis using r(1) by blast
qed


section \<open>Class width\<close>

lemma rounded_up_ceiling: "rounded_up_2dp r (of_int \<lceil>r * 100\<rceil> / 100)"
proof -
  have "r * 100 \<le> of_int \<lceil>r * 100\<rceil>" "of_int \<lceil>r * 100\<rceil> < r * 100 + 1"
    by linarith+
  then show ?thesis by (simp add: rounded_up_2dp_def isInteger_def field_simps)
qed

text \<open>Rounding up to two decimal places determines its result.\<close>

lemma rounded_up_unique:
  assumes "rounded_up_2dp r w" "rounded_up_2dp r w'"
  shows "w = w'"
proof -
  from assms obtain k k' :: int where k: "w * 100 = of_int k" "w' * 100 = of_int k'"
    unfolding rounded_up_2dp_def isInteger_def by metis
  from assms have "r * 100 \<le> of_int k" "of_int k < r * 100 + 1" "r * 100 \<le> of_int k'" "of_int k' < r * 100 + 1"
    unfolding rounded_up_2dp_def k [symmetric] by (simp_all add: field_simps)
  then have "k = k'" by linarith
  with k show ?thesis by simp
qed
lemma log_10_3_bounds: "2 / 5 < log 10 3" "log 10 3 < 1 / 2"
proof -
  have "log 10 (3 ^ 5) = 5 * log 10 3" by (subst log_nat_power) simp_all
  moreover have "log 10 (10 ^ 2) = 2" by (subst log_nat_power) simp_all
  moreover have "log 10 (10 ^ 2) < log 10 (3 ^ 5 :: real)" by (subst log_less_cancel_iff) simp_all
  ultimately show "2 / 5 < log 10 3" by simp
  have "log 10 (3 ^ 2) = 2 * log 10 3" by (subst log_nat_power) simp_all
  moreover have "log 10 (3 ^ 2) < log 10 (10::real)" by (subst log_less_cancel_iff) simp_all
  ultimately show "log 10 3 < 1 / 2" by simp
qed

lemma sturges_3: "sturges 3 = Fin 3"
proof -
  obtain l where l: "fl (log 10 3) = Fin l" "log 10 3 - 1 / 10000000000000 \<le> l" "l \<le> log 10 3 + 1 / 10000000000000"
    using fl_close [of "log 10 3" 0] log_10_3_bounds by auto
  obtain c where c: "fl 3.322 = Fin c" "3.322 - 1 / 10000000000000 \<le> c" "c \<le> 3.322 + 1 / 10000000000000"
    using fl_close [of "3.322" 2] by auto
  have lb: "39 / 100 < l" "l < 51 / 100" using l(2,3) log_10_3_bounds by linarith+
  have cb: "33 / 10 < c" "c < 34 / 10" using c(2,3) by simp_all
  have "33 / 10 * (39 / 100) < c * l" using lb cb by (intro mult_strict_mono) simp_all
  moreover have "c * l < 34 / 10 * (51 / 100)" using lb cb by (intro mult_strict_mono) simp_all
  ultimately have clb: "128 / 100 < c * l" "c * l < 174 / 100" by simp_all
  obtain m where m: "fl (c * l) = Fin m" "c * l - 1 / 10000000000000 \<le> m" "m \<le> c * l + 1 / 10000000000000"
    using fl_close [of "c * l" 1] clb by auto
  have mb: "127 / 100 < m" "m < 175 / 100" using m(2,3) clb by linarith+
  obtain z where z: "fl (1 + m) = Fin z" "1 + m - 1 / 10000000000000 \<le> z" "z \<le> 1 + m + 1 / 10000000000000"
    using fl_close [of "1 + m" 2] mb by auto
  have "2 < z" "z \<le> 3" using z(2,3) mb by linarith+
  then have "\<lceil>z\<rceil> = 3" by linarith
  moreover have "fl (1661 / 500) = Fin c" using c(1) by simp
  ultimately show ?thesis by (simp add: sturges_def Math_log10_def l m z)
qed

lemma class_width_sturges:
  "calculateClassWidth (Suc (Suc (Suc m))) [0, 1, 5] Undefined = Inr (Some (fl 1.67))"
proof -
  obtain r where r: "fl (5 / 3) = Fin r" "5 / 3 - 1 / 10000000000000 \<le> r" "r \<le> 5 / 3 + 1 / 10000000000000"
    using fl_close [of "5 / 3" 1] by auto
  have rb: "1666 / 1000 < r" "r < 1667 / 1000" using r(2,3) by linarith+
  obtain w where w: "fl (r * 100) = Fin w" "r * 100 - 1 / 10000000000000 \<le> w" "w \<le> r * 100 + 1 / 10000000000000"
    using fl_close [of "r * 100" 8] rb by auto
  have "166 < w" "w \<le> 167" using w(2,3) rb by linarith+
  then have "\<lceil>w\<rceil> = 167" by linarith
  then show ?thesis
    using sturges_3 [unfolded numeral_3_eq_3]
    by (simp add: calculateClassWidth_def class_width_body_def Math_min_def Math_max_def
      fl_numeral r w)
qed

text \<open>
  C8. The code rounds up after a multiplication that is itself rounded. The range 11
  divided into 5 classes is the double nearest to 2.2, which lies above 2.2; its product
  with 100 is a double above 220, and \<open>Math.ceil\<close> makes 221 of it: both files return
  the width 2.21, where the quotient 2.2 rounded up to two decimal places is 2.2.
  Further, an argument left out is \<open>null\<close> in calculator.js, whose width of the sample
  0, 1, 5 is 1.67, that of the three classes of Sturges' formula; in statistics.js it
  is 5, and the width of the same sample is 1.
\<close>

theorem class_width_not_rounded_up:
  "calculateClassWidth (Suc (Suc m)) [0, 11] (Count 5) = Inr (Some (fl 2.21))
   \<and> Statistics_calculateClassWidth (Suc (Suc m)) [0, 11] (Count 5) = Inr (Some (fl 2.21))
   \<and> rounded_up_2dp ((11 - 0) / 5) 2.2
   \<and> fl 2.21 \<noteq> fl 2.2
   \<and> sturges 3 = Fin 3
   \<and> calculateClassWidth (Suc (Suc (Suc m))) [0, 1, 5] Undefined = Inr (Some (fl 1.67))
   \<and> rounded_up_2dp ((5 - 0) / 3) 1.67
   \<and> Statistics_calculateClassWidth (Suc (Suc (Suc m))) [0, 1, 5] Undefined = Inr (Some (Fin 1))"
proof (intro conjI)
  have a: "fl (11 / 5) = Fin (2476979795053773 / 1125899906842624)"
    using fl_at [of 1 "11 / 5"] by (simp add: round_even_def)
  have b: "fl (61924494876344325 / 281474976710656) = Fin (7740561859543041 / 35184372088832)"
    using fl_at [of 7 "61924494876344325 / 281474976710656"] by (simp add: round_even_def)
  have c: "fl (221 / 100) = Fin (2488238794122199 / 1125899906842624)"
    using fl_at [of 1 "221 / 100"] by (simp add: round_even_def)
  show "calculateClassWidth (Suc (Suc m)) [0, 11] (Count 5) = Inr (Some (fl 2.21))"
    by (simp add: calculateClassWidth_def class_width_body_def Math_min_def Math_max_def
        fl_numeral a b)
  show "Statistics_calculateClassWidth (Suc (Suc m)) [0, 11] (Count 5) = Inr (Some (fl 2.21))"
    by (simp add: Statistics_calculateClassWidth_def class_width_body_def Math_min_def
        Math_max_def fl_numeral a b)
  show "rounded_up_2dp ((11 - 0) / 5) 2.2"
    by (simp add: rounded_up_2dp_def isInteger_def)
  show "fl 2.21 \<noteq> fl 2.2"
    using a c by simp
  show "sturges 3 = Fin 3"
    by (rule sturges_3)
  show "calculateClassWidth (Suc (Suc (Suc m))) [0, 1, 5] Undefined = Inr (Some (fl 1.67))"
    by (rule class_width_sturges)
  show "rounded_up_2dp ((5 - 0) / 3) 1.67"
    by (simp add: rounded_up_2dp_def isInteger_def)
  show "Statistics_calculateClassWidth (Suc (Suc (Suc m))) [0, 1, 5] Undefined
          = Inr (Some (Fin 1))"
    by (simp add: Statistics_calculateClassWidth_def class_width_body_def Math_min_def
        Math_max_def fl_numeral)
qed

section \<open>Evaluating the conversions on literals\<close>

lemma digit_char_table:
  "digit_char 0 = CHR ''0''" "digit_char 1 = CHR ''1''" "digit_char 2 = CHR ''2''"
  "digit_char 3 = CHR ''3''" "digit_char 4 = CHR ''4''" "digit_char 5 = CHR ''5''"
  "digit_char 6 = CHR ''6''" "digit_char 7 = CHR ''7''" "digit_char 8 = CHR ''8''"
  "digit_char 9 = CHR ''9''" "digit_char (Suc 0) = CHR ''1''"
  unfolding digit_char_def by code_simp+

lemma digits_of_nat_numeral:
  "digits_of_nat (numeral k) =
     (if numeral k < (10 :: nat) then [digit_char (numeral k)]
      else digits_of_nat (numeral k div 10) @ [digit_char (numeral k mod 10)])"
  by (rule digits_of_nat.simps)

lemma digits_of_nat_0: "digits_of_nat 0 = ''0''"
  by (simp add: digits_of_nat.simps digit_char_table)

lemma digits_of_nat_1: "digits_of_nat (Suc 0) = ''1''" "digits_of_nat 1 = ''1''"
  by (simp_all add: digits_of_nat.simps digit_char_table)

lemma replicate_numeral: "replicate (numeral k) x = x # replicate (pred_numeral k) x"
  by (simp add: numeral_eq_Suc)

lemma isInteger_eval: "isInteger x \<longleftrightarrow> \<lfloor>x\<rfloor> = - \<lfloor>- x\<rfloor>"
  by (simp add: isInteger_floor_ceiling ceiling_def)

lemmas digit_eval = digits_of_nat_numeral digits_of_nat_0 digits_of_nat_1
  digit_char_table replicate_numeral

lemma fl_3_2: "fl (3 / 2) = Fin (3 / 2)"
  using fl_dyadic [of 3 "- 1"] by (simp add: overflow_threshold_def)

lemmas parse_eval = parseInput_def split_seps.simps trim_def is_sep_def is_space_def parseFloat_def
  StrDecimalLiteral_def StrUnsignedDecimalLiteral_def exponent_part_def is_digit_def
  digits_value_def digit_val_def scale10_def isNaN_def isFinite_def negate_def
  RoundMVResult_def fl_numeral

lemmas number_eval = StringToNumber_def NonDecimalIntegerLiteral_def base_value_def
  base_digit_def Statistics_parseInput_def


section \<open>Parsing\<close>

lemma parseInput_finite: "v \<in> set (parseInput input) \<Longrightarrow> \<exists>x. v = Fin x"
  by (cases v) (auto simp add: parseInput_def isNaN_def isFinite_def split: if_splits)

text \<open>
  C2. \<open>StatCalculator.parseInput\<close> reads a token with \<open>parseFloat\<close>, which takes the
  longest numeric prefix: \<open>12abc\<close> is kept as 12 and \<open>1.5.2\<close> as 1.5, where
  \<open>Statistics.parseInput\<close> drops both. \<open>Statistics.parseInput\<close> in turn has no test for
  finiteness and keeps \<open>Infinity\<close>, which \<open>StatCalculator.parseInput\<close> filters out.
\<close>

theorem parseInput_not_strict:
  "parseInput ''12abc'' = [Fin 12]
   \<and> parseInput ''7 1.5.2 x9'' = [Fin 7, Fin 1.5]
   \<and> Statistics_parseInput ''12abc'' = []
   \<and> Statistics_parseInput ''7 1.5.2 x9'' = [Fin 7]
   \<and> parseInput ''3 Infinity'' = [Fin 3]
   \<and> Statistics_parseInput ''3 Infinity'' = [Fin 3, PosInf]"
  by (simp add: parse_eval number_eval fl_3_2)


section \<open>All statistics at once\<close>

lemma Math_min_within: "length data \<le> max_args \<Longrightarrow> data \<noteq> [] \<Longrightarrow> \<exists>x. Math_min max_args data = Inr (Fin x)"
  by (cases data) (simp_all add: Math_min_def)

lemma Math_max_within: "length data \<le> max_args \<Longrightarrow> data \<noteq> [] \<Longrightarrow> \<exists>x. Math_max max_args data = Inr (Fin x)"
  by (cases data) (simp_all add: Math_max_def)

text \<open>
  On the empty sample \<open>calculateAll\<close> returns the error object, and on a sample that
  the engine can spread it returns the statistics.
\<close>

lemma calculateAll_empty: "calculateAll max_args [] nc = Inr (ErrorMarker ''No valid data provided'')"
  by (simp add: calculateAll_def)

lemma calculateAll_within_limit:
  assumes "data \<noteq> []" and "length data \<le> max_args"
  shows "\<exists>r. calculateAll max_args data nc = Inr (Stats r)
             \<and> res_count r = length data \<and> res_rawData r = data"
proof -
  obtain mn mx where m: "Math_min max_args data = Inr (Fin mn)" "Math_max max_args data = Inr (Fin mx)"
    using Math_min_within [OF assms(2,1)] Math_max_within [OF assms(2,1)] by auto
  show ?thesis
    using assms(1) m
    by (simp add: calculateAll_def getBasicStats_def calculateClassWidth_def class_width_body_def
        Let_def split: class_arg.split)
qed

text \<open>
  C5. \<open>calculateAll\<close> throws on a sample that is longer than the number of arguments the
  engine accepts in a call: \<open>getBasicStats\<close> spreads the sample into \<open>Math.min\<close>, and the
  \<open>RangeError\<close> of the spread is not caught.
\<close>

theorem calculateAll_throws:
  "calculateAll max_args (replicate (Suc max_args) x) nc = Inl RangeError"
  by (simp add: calculateAll_def getBasicStats_def Math_min_def)


section \<open>Digits\<close>

lemma of_char_digit_char: "d < 10 \<Longrightarrow> of_char (digit_char d) = d + 48"
  by (simp add: digit_char_def)

lemma is_digit_digit_char: "d < 10 \<Longrightarrow> is_digit (digit_char d)"
  by (simp add: is_digit_def of_char_digit_char)

lemma digit_val_digit_char: "d < 10 \<Longrightarrow> digit_val (digit_char d) = d"
  by (simp add: digit_val_def of_char_digit_char)

lemma is_digit_not_sep: "is_digit c \<Longrightarrow> \<not> is_sep c"
  by (auto simp add: is_digit_def is_sep_def is_space_def)

lemma is_digit_not_special:
  "is_digit c \<Longrightarrow> c \<noteq> CHR ''-'' \<and> c \<noteq> CHR ''+'' \<and> c \<noteq> CHR ''.'' \<and> c \<noteq> CHR ''e''
     \<and> c \<noteq> CHR ''E'' \<and> c \<noteq> CHR ''I'' \<and> \<not> is_space c"
  by (auto simp add: is_digit_def is_space_def)

lemma digits_value_Nil: "digits_value [] = 0"
  by (simp add: digits_value_def)

lemma digits_value_snoc: "digits_value (ds @ [c]) = 10 * digits_value ds + digit_val c"
  by (simp add: digits_value_def)

lemma digits_value_append:
  "digits_value (xs @ ys) = digits_value xs * 10 ^ length ys + digits_value ys"
proof (induction ys rule: rev_induct)
  case Nil
  then show ?case by (simp add: digits_value_Nil)
next
  case (snoc y ys)
  have "digits_value (xs @ ys @ [y]) = 10 * digits_value (xs @ ys) + digit_val y"
    using digits_value_snoc [of "xs @ ys" y] by simp
  then show ?case by (simp add: snoc digits_value_snoc algebra_simps)
qed

lemma digits_value_zeros: "digits_value (replicate k CHR ''0'') = 0"
proof (induction k)
  case 0
  then show ?case by (simp add: digits_value_Nil)
next
  case (Suc k)
  have "digits_value ([CHR ''0''] @ replicate k CHR ''0'') = 0"
    unfolding digits_value_append using Suc by (simp add: digits_value_def digit_val_def)
  then show ?case by simp
qed

lemma digits_of_nat_digits: "c \<in> set (digits_of_nat n) \<Longrightarrow> is_digit c"
proof (induction n arbitrary: c rule: digits_of_nat.induct)
  case (1 n)
  show ?case
  proof (cases "n < 10")
    case True
    with "1.prems" show ?thesis
      by (simp add: digits_of_nat.simps [of n] is_digit_digit_char)
  next
    case False
    with "1.prems" "1.IH" show ?thesis
      by (auto simp add: digits_of_nat.simps [of n] is_digit_digit_char)
  qed
qed

lemma digits_of_nat_not_Nil: "digits_of_nat n \<noteq> []"
  by (simp add: digits_of_nat.simps [of n])

lemma digits_value_digits_of_nat: "digits_value (digits_of_nat n) = n"
proof (induction n rule: digits_of_nat.induct)
  case (1 n)
  show ?case
  proof (cases "n < 10")
    case True
    then show ?thesis
      using digits_value_snoc [of "[]"]
      by (simp add: digits_of_nat.simps [of n] digits_value_Nil digit_val_digit_char)
  next
    case False
    then show ?thesis
      using "1.IH" by (simp add: digits_of_nat.simps [of n] digits_value_snoc digit_val_digit_char)
  qed
qed

lemma takeWhile_digits:
  assumes "\<forall>c \<in> set ds. is_digit c" "rest = [] \<or> \<not> is_digit (hd rest)"
  shows "takeWhile is_digit (ds @ rest) = ds" "dropWhile is_digit (ds @ rest) = rest"
proof -
  have "takeWhile is_digit rest = []" "dropWhile is_digit rest = rest"
    using assms(2) by (cases rest; simp)+
  then show "takeWhile is_digit (ds @ rest) = ds" "dropWhile is_digit (ds @ rest) = rest"
    using assms(1) by (simp_all add: takeWhile_append2 dropWhile_append2)
qed


section \<open>Reading a literal\<close>

lemma exponent_part_Nil: "exponent_part [] = (0, [])"
  by (simp add: exponent_part_def)

lemma exponent_part_plus:
  assumes "ex \<noteq> []" "\<forall>c \<in> set ex. is_digit c"
  shows "exponent_part (''e+'' @ ex) = (int (digits_value ex), [])"
proof -
  have tw: "takeWhile is_digit ex = ex" "dropWhile is_digit ex = []"
    using assms(2) by simp_all
  show ?thesis
    using assms(1) by (simp add: exponent_part_def Let_def tw)
qed

lemma not_Infinity:
  assumes "s \<noteq> []" "is_digit (hd s)"
  shows "take 8 s \<noteq> ''Infinity''"
proof
  assume "take 8 s = ''Infinity''"
  then have "hd (take 8 s) = CHR ''I''" by simp
  moreover have "hd (take 8 s) = hd s" using assms(1) by (cases s) simp_all
  ultimately show False using assms(2) is_digit_not_special by metis
qed

lemma StrUnsignedDecimalLiteral_point:
  assumes "ip \<noteq> []" "\<forall>c \<in> set ip. is_digit c" "\<forall>c \<in> set fp. is_digit c"
    and "tail = [] \<or> \<not> is_digit (hd tail)"
  shows "StrUnsignedDecimalLiteral (ip @ CHR ''.'' # fp @ tail)
           = (Fin (scale10 (real (digits_value (ip @ fp)))
                     (fst (exponent_part tail) - int (length fp))),
              snd (exponent_part tail))"
proof -
  let ?s = "ip @ CHR ''.'' # fp @ tail"
  have h: "?s \<noteq> []" "is_digit (hd ?s)" using assms(1,2) by (cases ip; simp)+
  have 1: "takeWhile is_digit ?s = ip" "dropWhile is_digit ?s = CHR ''.'' # fp @ tail"
    using takeWhile_digits [OF assms(2), of "CHR ''.'' # fp @ tail"] is_digit_not_special
    by auto
  have 2: "takeWhile is_digit (fp @ tail) = fp" "dropWhile is_digit (fp @ tail) = tail"
    using takeWhile_digits [OF assms(3,4)] by simp_all
  show ?thesis
    unfolding StrUnsignedDecimalLiteral_def
    using not_Infinity [OF h] assms(1) by (simp add: 1 2 Let_def)
qed

lemma StrUnsignedDecimalLiteral_no_point:
  assumes "ip \<noteq> []" "\<forall>c \<in> set ip. is_digit c"
    and "tail = [] \<or> (\<not> is_digit (hd tail) \<and> hd tail \<noteq> CHR ''.'')"
  shows "StrUnsignedDecimalLiteral (ip @ tail)
           = (Fin (scale10 (real (digits_value ip)) (fst (exponent_part tail))),
              snd (exponent_part tail))"
proof -
  let ?s = "ip @ tail"
  have h: "?s \<noteq> []" "is_digit (hd ?s)" using assms(1,2) by (cases ip; simp)+
  have 1: "takeWhile is_digit ?s = ip" "dropWhile is_digit ?s = tail"
    using takeWhile_digits [OF assms(2), of tail] assms(3) by auto
  have 2: "(case tail of [] \<Rightarrow> ([], tail)
            | c # r \<Rightarrow> if c = CHR ''.'' then (takeWhile is_digit r, dropWhile is_digit r)
                       else ([], tail)) = ([], tail)"
    using assms(3) by (cases tail) auto
  show ?thesis
    unfolding StrUnsignedDecimalLiteral_def
    using not_Infinity [OF h] assms(1) by (simp add: 1 2 Let_def)
qed

lemma StrDecimalLiteral_digit:
  assumes "s \<noteq> []" "is_digit (hd s)"
  shows "StrDecimalLiteral s = StrUnsignedDecimalLiteral s"
  using assms is_digit_not_special [of "hd s"]
  by (cases s) (auto simp add: StrDecimalLiteral_def)

lemma StrDecimalLiteral_minus:
  "StrDecimalLiteral (CHR ''-'' # s)
     = (negate (fst (StrUnsignedDecimalLiteral s)), snd (StrUnsignedDecimalLiteral s))"
  by (simp add: StrDecimalLiteral_def Let_def)

lemma scale10_0: "scale10 m 0 = m"
  by (simp add: scale10_def)

lemma scale10_neg: "scale10 m (- int k) = m / 10 ^ k"
proof (cases k)
  case 0
  then show ?thesis by (simp add: scale10_def)
next
  case (Suc n)
  then have "\<not> 0 \<le> - int k" "nat (- (- int k)) = k" by simp_all
  then show ?thesis unfolding scale10_def by simp
qed

lemma scale10_pos: "scale10 m (int k) = m * 10 ^ k"
  by (simp add: scale10_def)



end
